theory Spec2Isabelle
  imports Main "HOL-Library.Word" "HOL-Library.List_Lexorder" "HOL-Library.Multiset"
begin

section \<open>JavaScript values\<close>

text \<open>
  A JavaScript string is a sequence of 16-bit code units; strings are compared code unit
  by code unit (the order of \<open>Array.prototype.sort()\<close> without a comparator), which is the
  lexicographic order of lists.  \<open>js\<close> writes an ASCII literal.
\<close>

type_synonym jsstring = "16 word list"

definition js :: "string \<Rightarrow> jsstring" where
  "js s = map of_char s"

text \<open>
  The values the functions receive are parsed JSON (API responses and request bodies).
  An object is the list of its own properties in the order of \<open>Object.entries\<close>; the
  keys of a parsed object are distinct.  Numbers are the integral ones (identifiers,
  counts, epoch milliseconds).  \<open>undefined\<close>, which JSON cannot carry, is \<open>None\<close> of
  \<open>jsval\<close>: the value of a missing property.
\<close>

datatype json =
    JNull
  | JBool bool
  | JNum int
  | JStr jsstring
  | JArr "json list"
  | JObj "(jsstring \<times> json) list"

type_synonym jsval = "json option"

text \<open>What the code can throw.\<close>

datatype error =
    TypeError
  | URIError
  | ApiError jsstring
  | KVError jsstring
  | SyntaxError

definition bindE :: "'e + 'a \<Rightarrow> ('a \<Rightarrow> 'e + 'b) \<Rightarrow> 'e + 'b" where
  "bindE m f = (case m of Inl e \<Rightarrow> Inl e | Inr x \<Rightarrow> f x)"

fun sequenceE :: "('e + 'a) list \<Rightarrow> 'e + 'a list" where
  "sequenceE [] = Inr []"
| "sequenceE (m # ms) = bindE m (\<lambda>x. bindE (sequenceE ms) (\<lambda>xs. Inr (x # xs)))"

text \<open>
  The built-ins of the host whose results the code only passes on: \<open>Date.parse\<close>
  (\<open>None\<close> is NaN), \<open>String.prototype.localeCompare\<close> with locale \<open>ru\<close> and base
  sensitivity, \<open>Number\<close> on a string (\<open>None\<close> is NaN), \<open>JSON.stringify\<close> and
  \<open>encodeURIComponent\<close> (\<open>None\<close> is its URIError on a lone surrogate).
\<close>

record host =
  dateParse :: "jsstring \<Rightarrow> int option"
  localeCompare :: "jsstring \<Rightarrow> jsstring \<Rightarrow> int"
  stringToNumber :: "jsstring \<Rightarrow> int option"
  jsonStringify :: "json \<Rightarrow> jsstring"
  encodeURIComponent :: "jsstring \<Rightarrow> jsstring option"

text \<open>ToBoolean.\<close>

fun truthy :: "jsval \<Rightarrow> bool" where
  "truthy None = False"
| "truthy (Some JNull) = False"
| "truthy (Some (JBool b)) = b"
| "truthy (Some (JNum n)) = (n \<noteq> 0)"
| "truthy (Some (JStr s)) = (s \<noteq> [])"
| "truthy (Some (JArr xs)) = True"
| "truthy (Some (JObj kvs)) = True"

text \<open>
  \<open>v.name\<close> for the property names the code reads.  None of them is a property of a
  built-in prototype, so only an own property of an object answers; reading a property
  of \<open>null\<close> throws.
\<close>

fun getProp :: "json \<Rightarrow> jsstring \<Rightarrow> error + jsval" where
  "getProp JNull k = Inl TypeError"
| "getProp (JObj kvs) k = Inr (map_of kvs k)"
| "getProp v k = Inr None"

text \<open>\<open>String(n)\<close> of an integral number below \<open>10^21\<close> in size: its decimal digits.\<close>

function digits :: "int \<Rightarrow> jsstring" where
  "digits n = (if n < 10 then [of_int (48 + n)] else digits (n div 10) @ [of_int (48 + n mod 10)])"
  by pat_completeness auto
termination
  by (relation "measure nat") auto

declare digits.simps [simp del]

definition numberToString :: "int \<Rightarrow> jsstring" where
  "numberToString n = (if n < 0 then 45 # digits (- n) else digits n)"

fun joinWith :: "jsstring \<Rightarrow> jsstring list \<Rightarrow> jsstring" where
  "joinWith sep [] = []"
| "joinWith sep [s] = s"
| "joinWith sep (s # t # ss) = s @ sep @ joinWith sep (t # ss)"

text \<open>
  \<open>String(v)\<close>.  An array joins its elements with commas, \<open>null\<close> as the empty
  string.  An object answers \<open>[object Object]\<close> through \<open>Object.prototype.toString\<close>;
  an own property \<open>toString\<close>, which in parsed JSON is never a function, leaves
  no method that returns a primitive, and the conversion throws.
\<close>

fun toStr :: "json \<Rightarrow> error + jsstring" where
  "toStr JNull = Inr (js ''null'')"
| "toStr (JBool b) = Inr (if b then js ''true'' else js ''false'')"
| "toStr (JNum n) = Inr (numberToString n)"
| "toStr (JStr s) = Inr s"
| "toStr (JArr xs) =
     bindE (sequenceE (map (\<lambda>x. if x = JNull then Inr [] else toStr x) xs))
       (\<lambda>ss. Inr (joinWith (js '','') ss))"
| "toStr (JObj kvs) =
     (if js ''toString'' \<in> fst ` set kvs then Inl TypeError else Inr (js ''[object Object]''))"

section \<open>Array.prototype.sort with a comparator\<close>

text \<open>
  The sort is stable, and with a consistent comparator its result is the one of insertion
  sort: an element stays before a later one when the comparator answers at most zero.
  \<open>sortByE\<close> is the sort with a comparator that can throw: on two or more elements
  every element is compared at least once, so the sort throws when a comparison does.
\<close>

fun insertBy :: "('a \<Rightarrow> 'a \<Rightarrow> int) \<Rightarrow> 'a \<Rightarrow> 'a list \<Rightarrow> 'a list" where
  "insertBy cmp x [] = [x]"
| "insertBy cmp x (y # ys) = (if cmp x y \<le> 0 then x # y # ys else y # insertBy cmp x ys)"

fun sortBy :: "('a \<Rightarrow> 'a \<Rightarrow> int) \<Rightarrow> 'a list \<Rightarrow> 'a list" where
  "sortBy cmp [] = []"
| "sortBy cmp (x # xs) = insertBy cmp x (sortBy cmp xs)"

fun insertByE :: "('a \<Rightarrow> 'a \<Rightarrow> 'e + int) \<Rightarrow> 'a \<Rightarrow> 'a list \<Rightarrow> 'e + 'a list" where
  "insertByE cmp x [] = Inr [x]"
| "insertByE cmp x (y # ys) =
     bindE (cmp x y) (\<lambda>c.
       if c \<le> 0 then Inr (x # y # ys)
       else bindE (insertByE cmp x ys) (\<lambda>r. Inr (y # r)))"

fun sortByE :: "('a \<Rightarrow> 'a \<Rightarrow> 'e + int) \<Rightarrow> 'a list \<Rightarrow> 'e + 'a list" where
  "sortByE cmp [] = Inr []"
| "sortByE cmp (x # xs) = bindE (sortByE cmp xs) (insertByE cmp x)"

text \<open>\<open>xs.slice(0, n)\<close>: a negative \<open>n\<close> counts from the end.\<close>

definition sliceTo :: "int \<Rightarrow> 'a list \<Rightarrow> 'a list" where
  "sliceTo n xs = (if n < 0 then take (nat (int (length xs) + n)) xs else take (nat n) xs)"

section \<open>Feedback: dedupe, rank, limit\<close>

text \<open>
  \<open>new Date(value).getTime()\<close>, \<open>None\<close> for NaN: a number is a time value when it
  is within the range of dates, a string is parsed, every other value goes through its
  primitive.
\<close>

definition timeClip :: "int \<Rightarrow> int option" where
  "timeClip t = (if \<bar>t\<bar> \<le> 8640000000000000 then Some t else None)"

fun dateTime :: "host \<Rightarrow> json \<Rightarrow> error + int option" where
  "dateTime h JNull = Inr (Some 0)"
| "dateTime h (JBool b) = Inr (Some (if b then 1 else 0))"
| "dateTime h (JNum n) = Inr (timeClip n)"
| "dateTime h (JStr s) = Inr (dateParse h s)"
| "dateTime h v = bindE (toStr v) (\<lambda>s. Inr (dateParse h s))"

text \<open>\<open>parseDate\<close>: zero for a falsy value and for a date that does not parse.\<close>

definition parseDate :: "host \<Rightarrow> jsval \<Rightarrow> error + int" where
  "parseDate h v =
     (if \<not> truthy v then Inr 0
      else case v of
        None \<Rightarrow> Inr 0
      | Some x \<Rightarrow> bindE (dateTime h x) (\<lambda>t. case t of None \<Rightarrow> Inr 0 | Some ms \<Rightarrow> Inr ms))"

text \<open>\<open>a || b\<close> on numbers: \<open>b\<close> is evaluated only when \<open>a\<close> is zero.\<close>

definition orElse :: "error + int \<Rightarrow> error + int \<Rightarrow> error + int" where
  "orElse a b = bindE a (\<lambda>x. if x \<noteq> 0 then Inr x else b)"

definition fieldDate :: "host \<Rightarrow> json \<Rightarrow> string \<Rightarrow> error + int" where
  "fieldDate h a name = bindE (getProp a (js name)) (parseDate h)"

text \<open>The date the comparator of \<open>latestByDate\<close> computes for a row.\<close>

definition rowDate :: "host \<Rightarrow> json \<Rightarrow> error + int" where
  "rowDate h a =
     orElse (fieldDate h a ''createdDate'')
       (orElse (fieldDate h a ''createdAt'')
         (orElse (fieldDate h a ''date'')
           (orElse (fieldDate h a ''created'')
             (fieldDate h a ''updatedDate''))))"

definition compareRows :: "host \<Rightarrow> json \<Rightarrow> json \<Rightarrow> error + int" where
  "compareRows h a b = bindE (rowDate h a) (\<lambda>aDate. bindE (rowDate h b) (\<lambda>bDate. Inr (bDate - aDate)))"

text \<open>
  \<open>Map.prototype.set\<close> on the entries in insertion order: a key already present keeps
  its place and takes the new value.
\<close>

fun mapSet :: "'k \<Rightarrow> 'v \<Rightarrow> ('k \<times> 'v) list \<Rightarrow> ('k \<times> 'v) list" where
  "mapSet k v [] = [(k, v)]"
| "mapSet k v ((k', v') # m) = (if k = k' then (k, v) # m else (k', v') # mapSet k v m)"

text \<open>
  The key of a row in the map: \<open>String(row.id)\<close> when \<open>row && row.id != null\<close>,
  no key otherwise.
\<close>

definition idKey :: "json \<Rightarrow> error + jsstring option" where
  "idKey row =
     (if \<not> truthy (Some row) then Inr None
      else bindE (getProp row (js ''id'')) (\<lambda>v.
        case v of
          None \<Rightarrow> Inr None
        | Some JNull \<Rightarrow> Inr None
        | Some x \<Rightarrow> bindE (toStr x) (\<lambda>s. Inr (Some s))))"

text \<open>The first loop of \<open>latestByDate\<close>: the map and the rows without an id.\<close>

fun splitRows ::
  "json list \<Rightarrow> (jsstring \<times> json) list \<Rightarrow> json list \<Rightarrow> error + ((jsstring \<times> json) list \<times> json list)" where
  "splitRows [] m withoutId = Inr (m, withoutId)"
| "splitRows (row # rows) m withoutId =
     bindE (idKey row) (\<lambda>k.
       case k of
         Some s \<Rightarrow> splitRows rows (mapSet s row m) withoutId
       | None \<Rightarrow> splitRows rows m (withoutId @ [row]))"

definition latestByDate :: "host \<Rightarrow> json list \<Rightarrow> int \<Rightarrow> error + json list" where
  "latestByDate h rows limit =
     bindE (splitRows rows [] []) (\<lambda>(m, withoutId).
       let withId = map snd m;
           all = withId @ withoutId
       in bindE (sortByE (compareRows h) all) (\<lambda>ranked.
            Inr (if limit \<noteq> 0 then sliceTo limit ranked else ranked)))"

text \<open>The rows that carry the id whose map key is \<open>k\<close>.\<close>

definition withKey :: "jsstring \<Rightarrow> json list \<Rightarrow> json list" where
  "withKey k rows = filter (\<lambda>r. idKey r = Inr (Some k)) rows"

text \<open>Both rows have a resolved date, and the one of \<open>a\<close> is not the earlier.\<close>

definition dateGe :: "host \<Rightarrow> json \<Rightarrow> json \<Rightarrow> bool" where
  "dateGe h a b = (\<exists>da db. rowDate h a = Inr da \<and> rowDate h b = Inr db \<and> db \<le> da)"

section \<open>A host for the examples\<close>

text \<open>
  The examples run on a host that is right on the inputs they use: \<open>Date.parse\<close> on the
  date-only ISO form \<open>YYYY-MM-DD\<close> (midnight UTC, in milliseconds since the epoch),
  \<open>Number\<close> on a string of decimal digits, \<open>localeCompare\<close> on lowercase ASCII
  letters, \<open>encodeURIComponent\<close> on unreserved characters.  \<open>JSON.stringify\<close> is
  not reached by them.
\<close>

definition decimalInt :: "jsstring \<Rightarrow> int option" where
  "decimalInt s =
     (if s \<noteq> [] \<and> list_all (\<lambda>c. 48 \<le> c \<and> c \<le> 57) s
      then Some (foldl (\<lambda>n c. 10 * n + (uint c - 48)) 0 s) else None)"

definition daysFromCivil :: "int \<Rightarrow> int \<Rightarrow> int \<Rightarrow> int" where
  "daysFromCivil y m d =
     (let y' = (if m \<le> 2 then y - 1 else y);
          era = y' div 400;
          yoe = y' - era * 400;
          doy = (153 * (if m > 2 then m - 3 else m + 9) + 2) div 5 + d - 1;
          doe = yoe * 365 + yoe div 4 - yoe div 100 + doy
      in era * 146097 + doe - 719468)"

definition daysInMonth :: "int \<Rightarrow> int \<Rightarrow> int" where
  "daysInMonth y m =
     (if m = 2 then (if y mod 4 = 0 \<and> (y mod 100 \<noteq> 0 \<or> y mod 400 = 0) then 29 else 28)
      else if m = 4 \<or> m = 6 \<or> m = 9 \<or> m = 11 then 30 else 31)"

definition isoDateParse :: "jsstring \<Rightarrow> int option" where
  "isoDateParse s =
     (if length s = 10 \<and> s ! 4 = 45 \<and> s ! 7 = 45 then
        (case (decimalInt (take 4 s), decimalInt (take 2 (drop 5 s)), decimalInt (drop 8 s)) of
           (Some y, Some m, Some d) \<Rightarrow>
             if 1 \<le> m \<and> m \<le> 12 \<and> 1 \<le> d \<and> d \<le> daysInMonth y m
             then Some (daysFromCivil y m d * 86400000) else None
         | _ \<Rightarrow> None)
      else None)"

definition exampleHost :: host where
  "exampleHost =
     \<lparr> dateParse = isoDateParse,
       localeCompare = (\<lambda>a b. if a < b then - 1 else if a = b then 0 else 1),
       stringToNumber = decimalInt,
       jsonStringify = (\<lambda>v. []),
       encodeURIComponent = Some \<rparr>"

text \<open>The feedback item \<open>{id: i, createdDate: d}\<close>.\<close>

definition feedbackItem :: "int \<Rightarrow> string \<Rightarrow> json" where
  "feedbackItem i d = JObj [(js ''id'', JNum i), (js ''createdDate'', JStr (js d))]"

section \<open>The transport and fetchJson\<close>

text \<open>
  \<open>fetch\<close> is the one effect of the API functions.  A call is a request, and the
  transport answers it with a response or rejects.  The requests are the four the code
  builds: the cards list with its cursor (page limit, and \<open>updatedAt\<close> with \<open>nmID\<close>
  when both are set), the feedbacks and the questions of a query, and a command of the
  key/value store.  The credential is the same in all requests of a call and is left out.
\<close>

record feedbackQuery =
  q_nmId :: "int option"
  q_isAnswered :: bool
  q_take :: int
  q_skip :: int

datatype kvCommand =
    KvGet jsstring
  | KvSet jsstring jsval
  | KvDel jsstring

datatype request =
    CardsList int "(jsstring \<times> int) option"
  | Feedbacks feedbackQuery
  | Questions feedbackQuery
  | Kv kvCommand

record response =
  ok :: bool
  status :: int
  bodyText :: "error + jsstring"
  bodyJson :: "error + json"

type_synonym transport = "request \<Rightarrow> error + response"

definition toStrV :: "jsval \<Rightarrow> error + jsstring" where
  "toStrV v = (case v of None \<Rightarrow> Inr (js ''undefined'') | Some x \<Rightarrow> toStr x)"

text \<open>\<open>a || b\<close> on values.\<close>

definition orVal :: "jsval \<Rightarrow> jsval \<Rightarrow> jsval" where
  "orVal a b = (if truthy a then a else b)"

definition fetchJson :: "transport \<Rightarrow> request \<Rightarrow> error + json" where
  "fetchJson http req =
     bindE (http req) (\<lambda>response.
       if \<not> ok response then
         bindE (bodyText response) (\<lambda>text.
           Inl (ApiError (js ''WB API '' @ numberToString (status response) @ js '': '' @ text)))
       else
         bindE (bodyJson response) (\<lambda>payload.
           if truthy (Some payload) \<and> getProp payload (js ''error'') = Inr (Some (JBool True)) then
             bindE (getProp payload (js ''errorText'')) (\<lambda>errorText.
               bindE (toStrV (orVal errorText (Some (JStr (js ''WB API error'')))))
                 (\<lambda>message. Inl (ApiError message)))
           else Inr payload))"

text \<open>
  The list a feedback endpoint answers with: \<open>data = payload.data || payload\<close>, then
  \<open>data[name]\<close> when it is an array, \<open>data\<close> when it is one itself, the empty list
  otherwise.
\<close>

definition extractList :: "string \<Rightarrow> json \<Rightarrow> error + json list" where
  "extractList name payload =
     bindE (getProp payload (js ''data'')) (\<lambda>d.
       let data = (case orVal d (Some payload) of Some x \<Rightarrow> x | None \<Rightarrow> payload) in
       bindE (getProp data (js name)) (\<lambda>items.
         case items of
           Some (JArr xs) \<Rightarrow> Inr xs
         | _ \<Rightarrow> (case data of JArr ys \<Rightarrow> Inr ys | _ \<Rightarrow> Inr [])))"

text \<open>The query parameter \<open>nmId\<close> is set when \<open>nmId\<close> is truthy.\<close>

definition feedbackQueryOf :: "int \<Rightarrow> bool \<Rightarrow> int \<Rightarrow> int \<Rightarrow> feedbackQuery" where
  "feedbackQueryOf nmId isAnswered takeN skipN =
     \<lparr> q_nmId = (if nmId \<noteq> 0 then Some nmId else None),
       q_isAnswered = isAnswered, q_take = takeN, q_skip = skipN \<rparr>"

definition fetchFeedbacks :: "transport \<Rightarrow> int \<Rightarrow> bool \<Rightarrow> int \<Rightarrow> int \<Rightarrow> error + json list" where
  "fetchFeedbacks http nmId isAnswered takeN skipN =
     bindE (fetchJson http (Feedbacks (feedbackQueryOf nmId isAnswered takeN skipN)))
       (extractList ''feedbacks'')"

definition fetchQuestions :: "transport \<Rightarrow> int \<Rightarrow> bool \<Rightarrow> int \<Rightarrow> int \<Rightarrow> error + json list" where
  "fetchQuestions http nmId isAnswered takeN skipN =
     bindE (fetchJson http (Questions (feedbackQueryOf nmId isAnswered takeN skipN)))
       (extractList ''questions'')"

section \<open>Reviews and questions\<close>

text \<open>
  \<open>fetchLatestReviews\<close>.  Both partitions are requested before either is awaited; when
  both fail the model reports the failure of the unanswered one.
\<close>

definition fetchLatestReviews :: "host \<Rightarrow> transport \<Rightarrow> int \<Rightarrow> int \<Rightarrow> error + json list" where
  "fetchLatestReviews h http nmId limit =
     (let takeN = min (max limit 1) 500 in
      bindE (fetchFeedbacks http nmId False takeN 0) (\<lambda>unanswered.
        bindE (fetchFeedbacks http nmId True takeN 0) (\<lambda>answered.
          latestByDate h (unanswered @ answered) limit)))"

text \<open>
  One of the two \<open>while\<close> loops of \<open>fetchAllQuestions\<close>, which differ in
  \<open>isAnswered\<close> only.  \<open>None\<close> is a walk that does not end.
\<close>

partial_function (option) questionsWalk ::
  "transport \<Rightarrow> int \<Rightarrow> bool \<Rightarrow> int \<Rightarrow> int \<Rightarrow> json list \<Rightarrow> (error + json list) option" where
  "questionsWalk http nmId isAnswered limit skip items =
     (if int (length items) < limit then
        (case fetchQuestions http nmId isAnswered 1000 skip of
           Inl e \<Rightarrow> Some (Inl e)
         | Inr batch \<Rightarrow>
             if length batch = 0 then Some (Inr items)
             else if int (length batch) < 1000 then Some (Inr (items @ batch))
             else if skip + int (length batch) > 10000 then Some (Inr (items @ batch))
             else questionsWalk http nmId isAnswered limit (skip + int (length batch)) (items @ batch))
      else Some (Inr items))"

definition fetchAllQuestions :: "host \<Rightarrow> transport \<Rightarrow> int \<Rightarrow> int \<Rightarrow> (error + json list) option" where
  "fetchAllQuestions h http nmId limit =
     (case questionsWalk http nmId False limit 0 [] of
        None \<Rightarrow> None
      | Some (Inl e) \<Rightarrow> Some (Inl e)
      | Some (Inr unanswered) \<Rightarrow>
          (case questionsWalk http nmId True limit 0 unanswered of
             None \<Rightarrow> None
           | Some (Inl e) \<Rightarrow> Some (Inl e)
           | Some (Inr items) \<Rightarrow> Some (latestByDate h items limit)))"

text \<open>The list \<open>all\<close> of \<open>latestByDate\<close> before it is sorted.\<close>

definition mergedRows :: "json list \<Rightarrow> error + json list" where
  "mergedRows rows = bindE (splitRows rows [] []) (\<lambda>(m, withoutId). Inr (map snd m @ withoutId))"

text \<open>
  The resolved date in the words of the specification: the first non-zero of the parsed
  date fields in their order, zero when there is none.
\<close>

definition dateFields :: "string list" where
  "dateFields = [''createdDate'', ''createdAt'', ''date'', ''created'', ''updatedDate'']"

definition firstNonZero :: "int list \<Rightarrow> int" where
  "firstNonZero ds = (case filter (\<lambda>d. d \<noteq> 0) ds of [] \<Rightarrow> 0 | d # rest \<Rightarrow> d)"

section \<open>Catalog: photo selection\<close>

text \<open>\<open>String.prototype.trim\<close>: white space and line terminators.\<close>

definition isWhiteSpace :: "16 word \<Rightarrow> bool" where
  "isWhiteSpace c =
     (c = 0x09 \<or> c = 0x0A \<or> c = 0x0B \<or> c = 0x0C \<or> c = 0x0D \<or> c = 0x20 \<or> c = 0xA0 \<or>
      c = 0x1680 \<or> (0x2000 \<le> c \<and> c \<le> 0x200A) \<or> c = 0x2028 \<or> c = 0x2029 \<or>
      c = 0x202F \<or> c = 0x205F \<or> c = 0x3000 \<or> c = 0xFEFF)"

definition trim :: "jsstring \<Rightarrow> jsstring" where
  "trim s = rev (dropWhile isWhiteSpace (rev (dropWhile isWhiteSpace s)))"

definition startsWithHttp :: "jsstring \<Rightarrow> bool" where
  "startsWithHttp s = (take 4 s = js ''http'')"

definition appendPhotoVersion :: "host \<Rightarrow> jsstring \<Rightarrow> json \<Rightarrow> error + jsstring" where
  "appendPhotoVersion h url rawCard =
     bindE (getProp rawCard (js ''updatedAt'')) (\<lambda>updatedAt.
     bindE (getProp rawCard (js ''updateAt'')) (\<lambda>updateAt.
     bindE (getProp rawCard (js ''modifiedAt'')) (\<lambda>modifiedAt.
     bindE (getProp rawCard (js ''createdAt'')) (\<lambda>createdAt.
       let versionRaw = orVal updatedAt (orVal updateAt (orVal modifiedAt createdAt)) in
       if \<not> truthy versionRaw then Inr url
       else bindE (toStrV versionRaw) (\<lambda>s.
         let version = trim s in
         if version = [] then Inr url
         else
           let joiner = (if 63 \<in> set url then js ''&'' else js ''?'') in
           case encodeURIComponent h version of
             None \<Rightarrow> Inl URIError
           | Some encoded \<Rightarrow> Inr (url @ joiner @ js ''wbv='' @ encoded))))))"

text \<open>A candidate: base score, is-main, key score, negated index, URL.\<close>

type_synonym candidate = "int \<times> int \<times> int \<times> int \<times> jsstring"

definition candidateUrl :: "candidate \<Rightarrow> jsstring" where
  "candidateUrl c = snd (snd (snd (snd c)))"

definition keyScores :: "(string \<times> int) list" where
  "keyScores = [(''big'', 60), (''c516x688'', 55), (''c246x328'', 50), (''tm'', 45), (''url'', 40)]"

text \<open>
  The candidates of one entry of a collection.  An array entry is an object with none of
  the scored keys.
\<close>

definition collectItem :: "int \<Rightarrow> nat \<Rightarrow> json \<Rightarrow> candidate list" where
  "collectItem baseScore index item =
     (case item of
        JStr s \<Rightarrow> if startsWithHttp s then [(baseScore, 0, 0, - int index, s)] else []
      | JObj kvs \<Rightarrow>
          let isMain = (if map_of kvs (js ''isMain'') = Some (JBool True) then 1 else 0) in
          concat (map (\<lambda>(key, score).
            case map_of kvs (js key) of
              Some (JStr v) \<Rightarrow>
                if startsWithHttp v then [(baseScore, isMain, score, - int index, v)] else []
            | _ \<Rightarrow> []) keyScores)
      | _ \<Rightarrow> [])"

definition collect :: "jsval \<Rightarrow> int \<Rightarrow> candidate list" where
  "collect items baseScore =
     (case items of
        Some (JArr xs) \<Rightarrow> concat (map (\<lambda>(index, item). collectItem baseScore index item) (enumerate 0 xs))
      | _ \<Rightarrow> [])"

fun compareCandidates :: "candidate \<Rightarrow> candidate \<Rightarrow> int" where
  "compareCandidates (a0, a1, a2, a3, ua) (b0, b1, b2, b3, ub) =
     (if a0 \<noteq> b0 then b0 - a0
      else if a1 \<noteq> b1 then b1 - a1
      else if a2 \<noteq> b2 then b2 - a2
      else if a3 \<noteq> b3 then b3 - a3
      else 0)"

text \<open>The flat fields \<open>photo\<close>, \<open>image\<close>, \<open>imageUrl\<close>, tried when no collection has a URL.\<close>

fun flatPhoto :: "host \<Rightarrow> json \<Rightarrow> string list \<Rightarrow> error + jsstring option" where
  "flatPhoto h rawCard [] = Inr None"
| "flatPhoto h rawCard (key # keys) =
     bindE (getProp rawCard (js key)) (\<lambda>value.
       case value of
         Some (JStr v) \<Rightarrow>
           if startsWithHttp v then bindE (appendPhotoVersion h v rawCard) (\<lambda>u. Inr (Some u))
           else flatPhoto h rawCard keys
       | _ \<Rightarrow> flatPhoto h rawCard keys)"

definition selectPhotoUrl :: "host \<Rightarrow> json \<Rightarrow> error + jsstring option" where
  "selectPhotoUrl h rawCard =
     bindE (getProp rawCard (js ''photos'')) (\<lambda>photos.
     bindE (getProp rawCard (js ''mediaFiles'')) (\<lambda>mediaFiles.
     bindE (getProp rawCard (js ''images'')) (\<lambda>images.
       let candidates = collect photos 30 @ collect mediaFiles 20 @ collect images 10 in
       case sortBy compareCandidates candidates of
         best # rest \<Rightarrow> bindE (appendPhotoVersion h (candidateUrl best) rawCard) (\<lambda>u. Inr (Some u))
       | [] \<Rightarrow> flatPhoto h rawCard [''photo'', ''image'', ''imageUrl''])))"

section \<open>Catalog: normalization\<close>

record product =
  nm_id :: int
  title :: jsstring
  vendor_code :: jsstring
  photo_url :: "jsstring option"

text \<open>\<open>Number(v)\<close>, \<open>None\<close> for NaN: the only result that is not finite.\<close>

definition toNumber :: "host \<Rightarrow> jsval \<Rightarrow> error + int option" where
  "toNumber h v =
     (case v of
        None \<Rightarrow> Inr None
      | Some JNull \<Rightarrow> Inr (Some 0)
      | Some (JBool b) \<Rightarrow> Inr (Some (if b then 1 else 0))
      | Some (JNum n) \<Rightarrow> Inr (Some n)
      | Some (JStr s) \<Rightarrow> Inr (stringToNumber h s)
      | Some x \<Rightarrow> bindE (toStr x) (\<lambda>s. Inr (stringToNumber h s)))"

text \<open>\<open>Number(card.nmID ?? card.nmId)\<close>.\<close>

definition resolveNmId :: "host \<Rightarrow> json \<Rightarrow> error + int option" where
  "resolveNmId h rawCard =
     bindE (getProp rawCard (js ''nmID'')) (\<lambda>nmID.
       bindE (if nmID = None \<or> nmID = Some JNull then getProp rawCard (js ''nmId'') else Inr nmID)
         (toNumber h))"

text \<open>The default title, \<open>Bez nazvaniya\<close> in Cyrillic, as code units.\<close>

definition noTitle :: jsstring where
  "noTitle = [0x0411, 0x0435, 0x0437, 0x20, 0x043D, 0x0430, 0x0437, 0x0432, 0x0430, 0x043D, 0x0438, 0x044F]"

definition makeProduct :: "host \<Rightarrow> json \<Rightarrow> int \<Rightarrow> error + product" where
  "makeProduct h rawCard nmId =
     bindE (getProp rawCard (js ''title'')) (\<lambda>cardTitle.
     bindE (getProp rawCard (js ''subjectName'')) (\<lambda>subjectName.
     bindE (toStrV (orVal cardTitle (orVal subjectName (Some (JStr noTitle))))) (\<lambda>titleText.
     bindE (getProp rawCard (js ''vendorCode'')) (\<lambda>vendorCode.
     bindE (toStrV (orVal vendorCode (Some (JStr (js ''-''))))) (\<lambda>vendorText.
     bindE (selectPhotoUrl h rawCard) (\<lambda>photo.
       Inr \<lparr> nm_id = nmId,
             title = trim titleText,
             vendor_code = (if trim vendorText \<noteq> [] then trim vendorText else js ''-''),
             photo_url = photo \<rparr>))))))"

text \<open>The loop of \<open>normalizeProducts\<close> over the cards, with the set \<open>seen\<close>.\<close>

fun normalizeLoop :: "host \<Rightarrow> json list \<Rightarrow> int set \<Rightarrow> product list \<Rightarrow> error + product list" where
  "normalizeLoop h [] seen products = Inr products"
| "normalizeLoop h (rawCard # cards) seen products =
     bindE (resolveNmId h rawCard) (\<lambda>r.
       case r of
         None \<Rightarrow> normalizeLoop h cards seen products
       | Some nmId \<Rightarrow>
           if nmId \<in> seen then normalizeLoop h cards seen products
           else bindE (makeProduct h rawCard nmId) (\<lambda>p.
             normalizeLoop h cards (insert nmId seen) (products @ [p])))"

definition compareProducts :: "host \<Rightarrow> product \<Rightarrow> product \<Rightarrow> int" where
  "compareProducts h a b =
     (let titleCompare = localeCompare h (title a) (title b) in
      if titleCompare \<noteq> 0 then titleCompare else nm_id a - nm_id b)"

definition normalizeProducts :: "host \<Rightarrow> json list \<Rightarrow> error + product list" where
  "normalizeProducts h cards =
     bindE (normalizeLoop h cards {} []) (\<lambda>products. Inr (sortBy (compareProducts h) products))"

section \<open>Catalog: pagination\<close>

text \<open>
  One pass of the body of the \<open>while\<close> loop of \<open>fetchProductCards\<close>: the cards so far
  with the new batch, and the next cursor when the loop goes on, \<open>None\<close> at a
  \<open>break\<close>.  The cursor is \<open>cursorUpdatedAt\<close> and \<open>cursorNmId\<close>, both \<open>null\<close> at first.
\<close>

type_synonym cardsCursor = "jsstring option \<times> int option"

definition cursorOf :: "cardsCursor \<Rightarrow> (jsstring \<times> int) option" where
  "cursorOf c =
     (case c of
        (Some updatedAt, Some nmID) \<Rightarrow> if updatedAt \<noteq> [] \<and> nmID \<noteq> 0 then Some (updatedAt, nmID) else None
      | _ \<Rightarrow> None)"

definition cardsStep ::
  "host \<Rightarrow> transport \<Rightarrow> int \<Rightarrow> int \<Rightarrow> cardsCursor \<Rightarrow> json list \<Rightarrow> error + (json list \<times> cardsCursor option)" where
  "cardsStep h http pageSize maxItems cur cards =
     (let limit = min pageSize 100 in
      bindE (fetchJson http (CardsList limit (cursorOf cur))) (\<lambda>payload.
      bindE (getProp payload (js ''cards'')) (\<lambda>payloadCards.
        let batch = (case payloadCards of Some (JArr xs) \<Rightarrow> xs | _ \<Rightarrow> []);
            cards' = cards @ batch
        in
        if maxItems \<noteq> 0 \<and> int (length cards') \<ge> maxItems then Inr (cards', None)
        else if int (length batch) < limit then Inr (cards', None)
        else
          bindE (getProp payload (js ''cursor'')) (\<lambda>payloadCursor.
            let cursorPayload = (case orVal payloadCursor (Some (JObj [])) of Some x \<Rightarrow> x | None \<Rightarrow> JObj []) in
            bindE (getProp cursorPayload (js ''updatedAt'')) (\<lambda>updatedAt.
            bindE (getProp cursorPayload (js ''nmID'')) (\<lambda>nmID.
              if \<not> truthy updatedAt \<or> \<not> truthy nmID then Inr (cards', None)
              else
                bindE (toStrV updatedAt) (\<lambda>cursorUpdatedAt.
                bindE (toNumber h nmID) (\<lambda>cursorNmId.
                  if cursorNmId = None \<or> cursorNmId = Some 0 then Inr (cards', None)
                  else Inr (cards', Some (Some cursorUpdatedAt, cursorNmId))))))))))"

text \<open>The \<open>while (true)\<close> loop: the cards it has accumulated when it leaves.\<close>

partial_function (option) cardsLoop ::
  "host \<Rightarrow> transport \<Rightarrow> int \<Rightarrow> int \<Rightarrow> cardsCursor \<Rightarrow> json list \<Rightarrow> (error + json list) option" where
  "cardsLoop h http pageSize maxItems cur cards =
     (case cardsStep h http pageSize maxItems cur cards of
        Inl e \<Rightarrow> Some (Inl e)
      | Inr (cards', None) \<Rightarrow> Some (Inr cards')
      | Inr (cards', Some cur') \<Rightarrow> cardsLoop h http pageSize maxItems cur' cards')"

definition fetchProductCards :: "host \<Rightarrow> transport \<Rightarrow> int \<Rightarrow> int \<Rightarrow> (error + product list) option" where
  "fetchProductCards h http pageSize maxItems =
     (case cardsLoop h http pageSize maxItems (None, None) [] of
        None \<Rightarrow> None
      | Some (Inl e) \<Rightarrow> Some (Inl e)
      | Some (Inr cards) \<Rightarrow> Some (normalizeProducts h (sliceTo maxItems cards)))"

text \<open>The card resolves to the finite identifier \<open>n\<close>.\<close>

definition resolvesTo :: "host \<Rightarrow> int \<Rightarrow> json \<Rightarrow> bool" where
  "resolvesTo h n c = (resolveNmId h c = Inr (Some n))"

section \<open>Credential store with fallback\<close>

text \<open>
  The environment holds the two settings of the remote backend, unset or a string.  The
  in-process \<open>memoryStore\<close> is a map from keys to the values set; it is the state the
  operations pass on.
\<close>

record env =
  kvRestApiUrl :: "jsstring option"
  kvRestApiToken :: "jsstring option"

type_synonym memoryStore = "jsstring \<rightharpoonup> jsval"

definition hasKV :: "env \<Rightarrow> bool" where
  "hasKV e =
     ((case kvRestApiUrl e of Some url \<Rightarrow> url \<noteq> [] | None \<Rightarrow> False) \<and>
      (case kvRestApiToken e of Some token \<Rightarrow> token \<noteq> [] | None \<Rightarrow> False))"

definition kvCommand :: "transport \<Rightarrow> kvCommand \<Rightarrow> error + jsval" where
  "kvCommand http command =
     bindE (http (Kv command)) (\<lambda>response.
       if \<not> ok response then
         bindE (bodyText response) (\<lambda>text.
           Inl (KVError (js ''KV error '' @ numberToString (status response) @ js '': '' @ text)))
       else bindE (bodyJson response) (\<lambda>payload. getProp payload (js ''result'')))"

text \<open>\<open>v ?? null\<close>.\<close>

definition orNull :: "jsval \<Rightarrow> json" where
  "orNull v = (case v of None \<Rightarrow> JNull | Some x \<Rightarrow> x)"

text \<open>\<open>memoryStore.get(key)\<close>: \<open>undefined\<close> for a key that is not set.\<close>

definition memoryGet :: "memoryStore \<Rightarrow> jsstring \<Rightarrow> jsval" where
  "memoryGet mem key = (case mem key of None \<Rightarrow> None | Some v \<Rightarrow> v)"

definition getValue :: "env \<Rightarrow> transport \<Rightarrow> memoryStore \<Rightarrow> jsstring \<Rightarrow> error + json" where
  "getValue e http mem key =
     (if \<not> hasKV e then Inr (orNull (memoryGet mem key))
      else case kvCommand http (KvGet key) of
        Inr result \<Rightarrow> Inr (orNull result)
      | Inl err \<Rightarrow> Inr (orNull (memoryGet mem key)))"

text \<open>
  \<open>setValue\<close>: what it returns or throws, and the map afterwards.  The \<open>catch\<close>
  clause is the branch of a failed command.
\<close>

definition setValue ::
  "env \<Rightarrow> transport \<Rightarrow> memoryStore \<Rightarrow> jsstring \<Rightarrow> jsval \<Rightarrow> (error + bool) \<times> memoryStore" where
  "setValue e http mem key value =
     (if \<not> hasKV e then (Inr True, mem(key \<mapsto> value))
      else case kvCommand http (KvSet key value) of
        Inr result \<Rightarrow> (Inr True, mem)
      | Inl err \<Rightarrow> (Inr False, mem(key \<mapsto> value)))"

definition deleteValue ::
  "env \<Rightarrow> transport \<Rightarrow> memoryStore \<Rightarrow> jsstring \<Rightarrow> (error + bool) \<times> memoryStore" where
  "deleteValue e http mem key =
     (if \<not> hasKV e then (Inr (mem key \<noteq> None), mem(key := None))
      else case kvCommand http (KvDel key) of
        Inr result \<Rightarrow> (Inr True, mem)
      | Inl err \<Rightarrow> (Inr (mem key \<noteq> None), mem(key := None)))"

section \<open>Tabular serializer\<close>

text \<open>
  The \<open>output\<close> of \<open>flattenRow\<close> is a plain object: its own properties, and whether
  it still has \<open>Object.prototype\<close> as its prototype.  Assigning a primitive to
  \<open>__proto__\<close> goes to the setter of the prototype, which takes \<open>null\<close> (the object
  loses its prototype) and ignores every other primitive; \<open>flattenRow\<close> assigns no
  object.  Every other assignment sets an own property.
\<close>

record outputObject =
  ownProps :: "(jsstring \<times> json) list"
  hasPrototype :: bool

definition emptyOutput :: outputObject where
  "emptyOutput = \<lparr> ownProps = [], hasPrototype = True \<rparr>"

definition outputSet :: "jsstring \<Rightarrow> json \<Rightarrow> outputObject \<Rightarrow> outputObject" where
  "outputSet key v out =
     (if key = js ''__proto__'' \<and> hasPrototype out then
        (if v = JNull then out\<lparr> hasPrototype := False \<rparr> else out)
      else out\<lparr> ownProps := mapSet key v (ownProps out) \<rparr>)"

text \<open>
  The properties of \<open>Object.prototype\<close>, each with \<open>String\<close> of its value: the
  functions print as native code, and \<open>__proto__\<close> reads as the prototype itself.
\<close>

definition nativeFunction :: "string \<Rightarrow> jsstring" where
  "nativeFunction name = js ''function '' @ js name @ js ''() { [native code] }''"

definition objectPrototype :: "(jsstring \<times> jsstring) list" where
  "objectPrototype =
     [(js ''constructor'', nativeFunction ''Object''),
      (js ''__defineGetter__'', nativeFunction ''__defineGetter__''),
      (js ''__defineSetter__'', nativeFunction ''__defineSetter__''),
      (js ''hasOwnProperty'', nativeFunction ''hasOwnProperty''),
      (js ''__lookupGetter__'', nativeFunction ''__lookupGetter__''),
      (js ''__lookupSetter__'', nativeFunction ''__lookupSetter__''),
      (js ''isPrototypeOf'', nativeFunction ''isPrototypeOf''),
      (js ''propertyIsEnumerable'', nativeFunction ''propertyIsEnumerable''),
      (js ''toString'', nativeFunction ''toString''),
      (js ''valueOf'', nativeFunction ''valueOf''),
      (js ''__proto__'', js ''[object Object]''),
      (js ''toLocaleString'', nativeFunction ''toLocaleString'')]"

text \<open>
  What \<open>row[key]\<close> reads: an own property, else a property inherited from
  \<open>Object.prototype\<close> (given by its \<open>String\<close>), else \<open>undefined\<close>.
\<close>

datatype cell =
    Own json
  | Inherited jsstring
  | Undefined

definition outputGet :: "outputObject \<Rightarrow> jsstring \<Rightarrow> cell" where
  "outputGet out key =
     (case map_of (ownProps out) key of
        Some v \<Rightarrow> Own v
      | None \<Rightarrow>
          if hasPrototype out then
            (case map_of objectPrototype key of Some s \<Rightarrow> Inherited s | None \<Rightarrow> Undefined)
          else Undefined)"

text \<open>
  The loop of \<open>flattenRow\<close> over the entries of an object, with the recursive call for a
  value that is an object itself.
\<close>

fun flattenEntries :: "host \<Rightarrow> jsstring \<Rightarrow> (jsstring \<times> json) list \<Rightarrow> outputObject \<Rightarrow> outputObject" where
  "flattenEntries h prefix [] out = out"
| "flattenEntries h prefix ((key, v) # entries) out =
     (let nextKey = (if prefix \<noteq> [] then prefix @ js ''.'' @ key else key) in
      flattenEntries h prefix entries
        (case v of
           JObj kvs \<Rightarrow> flattenEntries h nextKey kvs out
         | JArr xs \<Rightarrow> outputSet nextKey (JStr (jsonStringify h v)) out
         | _ \<Rightarrow> outputSet nextKey v out))"

definition flattenRow :: "host \<Rightarrow> json \<Rightarrow> outputObject" where
  "flattenRow h obj =
     (case obj of
        JObj kvs \<Rightarrow> flattenEntries h [] kvs emptyOutput
      | _ \<Rightarrow> outputSet (js ''value'') obj emptyOutput)"

definition needsQuotes :: "jsstring \<Rightarrow> bool" where
  "needsQuotes str = (34 \<in> set str \<or> 44 \<in> set str \<or> 10 \<in> set str \<or> 13 \<in> set str)"

definition quoted :: "jsstring \<Rightarrow> jsstring" where
  "quoted str = 34 # concat (map (\<lambda>c. if c = 34 then [34, 34] else [c]) str) @ [34]"

definition escapeText :: "jsstring \<Rightarrow> jsstring" where
  "escapeText str = (if needsQuotes str then quoted str else str)"

definition csvEscape :: "cell \<Rightarrow> error + jsstring" where
  "csvEscape c =
     (case c of
        Undefined \<Rightarrow> Inr []
      | Own JNull \<Rightarrow> Inr []
      | Own v \<Rightarrow> bindE (toStr v) (\<lambda>str. Inr (escapeText str))
      | Inherited str \<Rightarrow> Inr (escapeText str))"

text \<open>The headers: the keys of all flattened rows, collected in a set and sorted.\<close>

definition csvHeaders :: "outputObject list \<Rightarrow> jsstring list" where
  "csvHeaders flattened = sort (remdups (concat (map (\<lambda>row. map fst (ownProps row)) flattened)))"

definition csvLine :: "jsstring list \<Rightarrow> outputObject \<Rightarrow> error + jsstring" where
  "csvLine headers row =
     bindE (sequenceE (map (\<lambda>key. csvEscape (outputGet row key)) headers))
       (\<lambda>cells. Inr (joinWith (js '','') cells))"

definition toCsv :: "host \<Rightarrow> json list \<Rightarrow> error + jsstring" where
  "toCsv h rows =
     (let flattened = map (flattenRow h) rows;
          headers = csvHeaders flattened
      in bindE (sequenceE (map (csvLine headers) flattened)) (\<lambda>dataLines.
           Inr (0xFEFF # joinWith [10] (joinWith (js '','') headers # dataLines))))"

section \<open>Verification of the initialization payload\<close>

text \<open>
  The built-ins of the verification, on top of those of \<open>host\<close>: the entries of
  \<open>new URLSearchParams(s)\<close>, \<open>crypto.createHmac("sha256", key).update(msg).digest()\<close>
  as a function of the key and the message, the UTF-8 encoding of a string,
  \<open>JSON.parse\<close> (\<open>None\<close> is its SyntaxError) and \<open>Date.now()\<close>.
\<close>

type_synonym byte = "8 word"

record platform = host +
  searchParams :: "jsstring \<Rightarrow> (jsstring \<times> jsstring) list"
  hmacSha256 :: "byte list \<Rightarrow> byte list \<Rightarrow> byte list"
  utf8 :: "jsstring \<Rightarrow> byte list"
  jsonParse :: "jsstring \<Rightarrow> json option"
  dateNow :: int

text \<open>\<open>digest("hex")\<close>: two lowercase hexadecimal digits for each byte.\<close>

definition hexDigit :: "nat \<Rightarrow> 16 word" where
  "hexDigit n = (if n < 10 then of_nat (48 + n) else of_nat (87 + n))"

definition hex :: "byte list \<Rightarrow> jsstring" where
  "hex bytes = concat (map (\<lambda>b. [hexDigit (unat b div 16), hexDigit (unat b mod 16)]) bytes)"

text \<open>
  \<open>parseInitData\<close>: the own properties of \<open>data\<close> after the assignments
  \<open>data[key] = value\<close> of all entries.  A later entry of a key replaces the earlier one;
  an entry of key \<open>__proto__\<close> sets no property, since its value is a string.
\<close>

definition parseInitData :: "'a platform_scheme \<Rightarrow> jsstring \<Rightarrow> (jsstring \<times> jsstring) list" where
  "parseInitData p initData =
     foldl (\<lambda>data (key, v). if key = js ''__proto__'' then data else mapSet key v data) []
       (searchParams p initData)"

definition buildDataCheckString :: "(jsstring \<times> jsstring) list \<Rightarrow> jsstring" where
  "buildDataCheckString data =
     (let keys = sort (filter (\<lambda>key. key \<noteq> js ''hash'') (map fst data)) in
      joinWith [10]
        (map (\<lambda>key. key @ js ''='' @ (case map_of data key of Some v \<Rightarrow> v | None \<Rightarrow> js ''undefined'')) keys))"

datatype verdict =
    Rejected string
  | Accepted "(jsstring \<times> jsstring) list" json

text \<open>The hash that \<open>verifyInitData\<close> computes for the data and the bot token.\<close>

definition computedHash :: "'a platform_scheme \<Rightarrow> (jsstring \<times> jsstring) list \<Rightarrow> jsstring \<Rightarrow> jsstring" where
  "computedHash p data botToken =
     (let dataCheckString = buildDataCheckString data;
          secretKey = hmacSha256 p (utf8 p (js ''WebAppData'')) (utf8 p botToken)
      in hex (hmacSha256 p secretKey (utf8 p dataCheckString)))"

text \<open>
  \<open>maxAgeSeconds && authDate\<close> and \<open>now - authDate > maxAgeSeconds\<close>, with
  \<open>authDate = Number(data.auth_date || 0)\<close>.
\<close>

definition expired :: "'a platform_scheme \<Rightarrow> (jsstring \<times> jsstring) list \<Rightarrow> int \<Rightarrow> bool" where
  "expired p data maxAgeSeconds =
     (let authDate =
        (case map_of data (js ''auth_date'') of
           None \<Rightarrow> Some 0
         | Some s \<Rightarrow> if s = [] then Some 0 else stringToNumber p s)
      in case authDate of
           None \<Rightarrow> False
         | Some t \<Rightarrow> maxAgeSeconds \<noteq> 0 \<and> t \<noteq> 0 \<and> dateNow p div 1000 - t > maxAgeSeconds)"

text \<open>
  \<open>verifyInitData\<close>, for \<open>initData\<close> a string and \<open>botToken\<close> a string or unset.
\<close>

definition verifyInitData :: "'a platform_scheme \<Rightarrow> jsstring \<Rightarrow> jsstring option \<Rightarrow> int \<Rightarrow> verdict" where
  "verifyInitData p initData botToken maxAgeSeconds =
     (case botToken of
        None \<Rightarrow> Rejected ''Missing initData or bot token.''
      | Some token \<Rightarrow>
          if initData = [] \<or> token = [] then Rejected ''Missing initData or bot token.''
          else
            let data = parseInitData p initData in
            case map_of data (js ''hash'') of
              None \<Rightarrow> Rejected ''Missing hash in initData.''
            | Some hash \<Rightarrow>
                if hash = [] then Rejected ''Missing hash in initData.''
                else if computedHash p data token \<noteq> hash then Rejected ''Invalid initData signature.''
                else if expired p data maxAgeSeconds then Rejected ''initData expired.''
                else
                  (case map_of data (js ''user'') of
                     None \<Rightarrow> Accepted data JNull
                   | Some u \<Rightarrow>
                       if u = [] then Accepted data JNull
                       else (case jsonParse p u of
                               None \<Rightarrow> Rejected ''Invalid user JSON.''
                             | Some user \<Rightarrow> Accepted data user)))"

text \<open>
  The check string in the words of the specification: the pairs other than \<open>hash\<close>,
  sorted by key, each as \<open>key=value\<close>, joined by line feeds.
\<close>

definition checkStringOfPairs :: "(jsstring \<times> jsstring) list \<Rightarrow> jsstring" where
  "checkStringOfPairs pairs =
     joinWith [10]
       (map (\<lambda>(key, v). key @ js ''='' @ v)
         (sort_key fst (filter (\<lambda>(key, v). key \<noteq> js ''hash'') pairs)))"

section \<open>Inputs of the examples\<close>

text \<open>An item with no date field, and one with \<open>createdDate\<close> only.\<close>

definition undated :: json where
  "undated = JObj []"

definition dated :: "string \<Rightarrow> json" where
  "dated d = JObj [(js ''createdDate'', JStr (js d))]"

text \<open>A response with status 200 and a JSON body; its text is not read.\<close>

definition jsonResponse :: "json \<Rightarrow> response" where
  "jsonResponse payload = \<lparr> ok = True, status = 200, bodyText = Inr [], bodyJson = Inr payload \<rparr>"

text \<open>
  A feedback endpoint that answers a request for one item from offset zero only: one
  unanswered review, two answered ones.
\<close>

definition reviewsHttp :: transport where
  "reviewsHttp req =
     (case req of
        Feedbacks q \<Rightarrow>
          if q_take q = 1 \<and> q_skip q = 0 then
            Inr (jsonResponse (JObj [(js ''data'', JObj [(js ''feedbacks'',
              JArr (if q_isAnswered q
                    then [feedbackItem 2 ''2024-03-01'', feedbackItem 3 ''2024-02-01'']
                    else [feedbackItem 1 ''2024-01-01'']))])]))
          else Inl (ApiError [])
      | _ \<Rightarrow> Inl (ApiError []))"

text \<open>A questions endpoint with two unanswered questions and one answered.\<close>

definition questionsHttp :: transport where
  "questionsHttp req =
     (case req of
        Questions q \<Rightarrow>
          Inr (jsonResponse (JObj [(js ''data'', JObj [(js ''questions'',
            JArr (if q_skip q \<noteq> 0 then []
                  else if q_isAnswered q then [feedbackItem 2 ''2024-03-01'']
                  else [feedbackItem 1 ''2024-01-01'', feedbackItem 3 ''2024-02-01'']))])]))
      | _ \<Rightarrow> Inl (ApiError []))"

text \<open>The card \<open>{nmID: n, title: t}\<close> and the product it normalizes to.\<close>

definition catalogCard :: "int \<Rightarrow> string \<Rightarrow> json" where
  "catalogCard n t = JObj [(js ''nmID'', JNum n), (js ''title'', JStr (js t))]"

definition catalogProduct :: "int \<Rightarrow> string \<Rightarrow> product" where
  "catalogProduct n t = \<lparr> nm_id = n, title = js t, vendor_code = js ''-'', photo_url = None \<rparr>"

text \<open>A catalog whose first page holds three cards, two of them of one identifier.\<close>

definition catalogHttp :: transport where
  "catalogHttp req =
     (case req of
        CardsList limit None \<Rightarrow>
          Inr (jsonResponse (JObj [(js ''cards'',
            JArr [catalogCard 1 ''a'', catalogCard 1 ''a'', catalogCard 2 ''b''])]))
      | _ \<Rightarrow> Inl (ApiError []))"

text \<open>
  A card with a non-main \<open>photos\<close> entry under key \<open>tm\<close> and a \<open>mediaFiles\<close> entry marked
  main.
\<close>

definition photoCard :: json where
  "photoCard = JObj
     [(js ''nmID'', JNum 5),
      (js ''photos'', JArr [JObj [(js ''tm'', JStr (js ''http://p/tm.jpg''))]]),
      (js ''mediaFiles'',
         JArr [JObj [(js ''isMain'', JBool True), (js ''big'', JStr (js ''http://m/big.jpg''))]])]"

text \<open>
  An environment without the remote settings, one with them, and a backend that answers
  every command with status 500.
\<close>

definition localEnv :: env where
  "localEnv = \<lparr> kvRestApiUrl = None, kvRestApiToken = None \<rparr>"

definition remoteEnv :: env where
  "remoteEnv = \<lparr> kvRestApiUrl = Some (js ''https://kv.example''), kvRestApiToken = Some (js ''secret'') \<rparr>"

definition failingHttp :: transport where
  "failingHttp req =
     Inr \<lparr> ok = False, status = 500, bodyText = Inr (js ''down''), bodyJson = Inl SyntaxError \<rparr>"

text \<open>
  A platform for the examples of the verification.  Its query parser splits at \<open>&\<close> and
  at the first \<open>=\<close>, which is what \<open>URLSearchParams\<close> does on a string without
  \<open>%\<close> and \<open>+\<close>; its UTF-8 encoding is right on ASCII; its \<open>JSON.parse\<close> knows the
  one user of the examples; the clock stands at 1700000000 seconds.  Its HMAC is a toy
  checksum of one byte: the verdicts of the examples depend on the digest only through
  the comparison with the supplied hash.
\<close>

fun splitOn :: "16 word \<Rightarrow> jsstring \<Rightarrow> jsstring list" where
  "splitOn c [] = [[]]"
| "splitOn c (x # xs) =
     (if x = c then [] # splitOn c xs
      else case splitOn c xs of y # ys \<Rightarrow> (x # y) # ys | [] \<Rightarrow> [[x]])"

definition simpleParams :: "jsstring \<Rightarrow> (jsstring \<times> jsstring) list" where
  "simpleParams s =
     map (\<lambda>part. (takeWhile (\<lambda>c. c \<noteq> 61) part, drop 1 (dropWhile (\<lambda>c. c \<noteq> 61) part)))
       (filter (\<lambda>part. part \<noteq> []) (splitOn 38 s))"

definition toyHmac :: "byte list \<Rightarrow> byte list \<Rightarrow> byte list" where
  "toyHmac key msg = [foldl (\<lambda>acc b. 31 * acc + b) 7 (key @ [0] @ msg)]"

definition examplePlatform :: platform where
  "examplePlatform =
     \<lparr> dateParse = isoDateParse,
       localeCompare = (\<lambda>a b. if a < b then - 1 else if a = b then 0 else 1),
       stringToNumber = decimalInt,
       jsonStringify = (\<lambda>v. []),
       encodeURIComponent = Some,
       searchParams = simpleParams,
       hmacSha256 = toyHmac,
       utf8 = map ucast,
       jsonParse = (\<lambda>s. if s = js ''{\"id\":7}'' then Some (JObj [(js ''id'', JNum 7)]) else None),
       dateNow = 1700000000000 \<rparr>"

section \<open>Lemmas: errors and the comparator sort\<close>

lemma bindE_Inr_iff: "bindE m f = Inr y \<longleftrightarrow> (\<exists>x. m = Inr x \<and> f x = Inr y)"
  by (cases m) (auto simp: bindE_def)

lemma bindE_Inr [simp]: "bindE (Inr x) f = f x"
  by (simp add: bindE_def)

lemma bindE_Inl [simp]: "bindE (Inl e) f = Inl e"
  by (simp add: bindE_def)

lemma insertByE_mset: "insertByE cmp x ys = Inr r \<Longrightarrow> mset r = add_mset x (mset ys)"
proof (induction ys arbitrary: r)
  case Nil
  then show ?case by auto
next
  case (Cons y ys)
  from Cons.prems obtain c where c: "cmp x y = Inr c"
    and rest: "(if c \<le> 0 then Inr (x # y # ys) else bindE (insertByE cmp x ys) (\<lambda>r. Inr (y # r))) = Inr r"
    by (auto simp: bindE_Inr_iff)
  show ?case
  proof (cases "c \<le> 0")
    case True
    with rest show ?thesis by auto
  next
    case False
    with rest obtain r' where "insertByE cmp x ys = Inr r'" "r = y # r'"
      by (auto simp: bindE_Inr_iff)
    with Cons.IH show ?thesis by auto
  qed
qed

lemma sortByE_mset: "sortByE cmp xs = Inr ys \<Longrightarrow> mset ys = mset xs"
proof (induction xs arbitrary: ys)
  case Nil
  then show ?case by simp
next
  case (Cons x xs)
  then obtain zs where "sortByE cmp xs = Inr zs" "insertByE cmp x zs = Inr ys"
    by (auto simp: bindE_Inr_iff)
  with Cons.IH show ?case by (auto dest: insertByE_mset)
qed

lemma compareRows_Inr:
  "compareRows h a b = Inr c \<longleftrightarrow> (\<exists>da db. rowDate h a = Inr da \<and> rowDate h b = Inr db \<and> c = db - da)"
  by (auto simp: compareRows_def bindE_Inr_iff)

lemma dateGe_trans: "dateGe h a b \<Longrightarrow> dateGe h b c \<Longrightarrow> dateGe h a c"
  by (auto simp: dateGe_def)

lemma insertByE_sorted:
  "insertByE (compareRows h) x ys = Inr r \<Longrightarrow> sorted_wrt (dateGe h) ys \<Longrightarrow> sorted_wrt (dateGe h) r"
proof (induction ys arbitrary: r)
  case Nil
  then show ?case by auto
next
  case (Cons y ys)
  from Cons.prems(1) obtain c where c: "compareRows h x y = Inr c"
    and rest: "(if c \<le> 0 then Inr (x # y # ys) else bindE (insertByE (compareRows h) x ys) (\<lambda>r. Inr (y # r))) = Inr r"
    by (auto simp: bindE_Inr_iff)
  from c obtain dx dy where d: "rowDate h x = Inr dx" "rowDate h y = Inr dy" "c = dy - dx"
    by (auto simp: compareRows_Inr)
  show ?case
  proof (cases "c \<le> 0")
    case True
    with d have xy: "dateGe h x y" by (auto simp: dateGe_def)
    have "\<forall>z \<in> set ys. dateGe h x z"
      using xy Cons.prems(2) by (auto intro: dateGe_trans)
    with True rest xy Cons.prems(2) show ?thesis by auto
  next
    case False
    with rest obtain r' where r': "insertByE (compareRows h) x ys = Inr r'" "r = y # r'"
      by (auto simp: bindE_Inr_iff)
    from False d have yx: "dateGe h y x" by (auto simp: dateGe_def)
    have "set r' = insert x (set ys)"
      using insertByE_mset[OF r'(1)] by (metis set_mset_add_mset_insert set_mset_mset)
    with yx Cons.prems(2) Cons.IH[OF r'(1)] r'(2) show ?thesis by auto
  qed
qed

lemma sortByE_sorted:
  "sortByE (compareRows h) xs = Inr ys \<Longrightarrow> sorted_wrt (dateGe h) ys"
proof (induction xs arbitrary: ys)
  case Nil
  then show ?case by simp
next
  case (Cons x xs)
  then obtain zs where "sortByE (compareRows h) xs = Inr zs" "insertByE (compareRows h) x zs = Inr ys"
    by (auto simp: bindE_Inr_iff)
  with Cons.IH show ?case by (auto dest: insertByE_sorted)
qed

lemma sorted_wrt_sliceTo: "sorted_wrt P xs \<Longrightarrow> sorted_wrt P (sliceTo n xs)"
  by (simp add: sliceTo_def sorted_wrt_take)

lemma latestByDate_Inr:
  "latestByDate h rows limit = Inr out \<longleftrightarrow>
     (\<exists>m w srt. splitRows rows [] [] = Inr (m, w) \<and>
        sortByE (compareRows h) (map snd m @ w) = Inr srt \<and>
        out = (if limit \<noteq> 0 then sliceTo limit srt else srt))"
  by (cases "splitRows rows [] []"; cases "limit = 0") (auto simp: latestByDate_def Let_def bindE_Inr_iff)

lemma latestByDate_sorted:
  assumes "latestByDate h rows limit = Inr out"
  shows "sorted_wrt (dateGe h) out"
proof -
  from assms obtain m w srt where
    "splitRows rows [] [] = Inr (m, w)"
    "sortByE (compareRows h) (map snd m @ w) = Inr srt"
    "out = (if limit \<noteq> 0 then sliceTo limit srt else srt)"
    unfolding latestByDate_Inr by blast
  then show ?thesis by (auto dest: sortByE_sorted intro: sorted_wrt_sliceTo)
qed

section \<open>Lemmas: the map of latestByDate\<close>

lemma map_of_mapSet: "map_of (mapSet k v m) = (map_of m)(k \<mapsto> v)"
  by (induction m) (auto simp: fun_eq_iff)

lemma fst_set_mapSet: "fst ` set (mapSet k v m) = insert k (fst ` set m)"
proof (induction m)
  case Nil
  then show ?case by simp
next
  case (Cons p m)
  obtain k' v' where p: "p = (k', v')" by (cases p)
  show ?case
  proof (cases "k = k'")
    case True
    with p show ?thesis by simp
  next
    case False
    with p Cons.IH show ?thesis by (simp add: insert_commute)
  qed
qed

lemma distinct_mapSet: "distinct (map fst m) \<Longrightarrow> distinct (map fst (mapSet k v m))"
  by (induction m) (auto simp: fst_set_mapSet)

lemma splitRows_inv:
  assumes "splitRows rows m w = Inr (m', w')"
  shows "map_of m' k = (case withKey k rows of [] \<Rightarrow> map_of m k | x # xs \<Rightarrow> Some (last (x # xs)))"
    and "distinct (map fst m) \<Longrightarrow> distinct (map fst m')"
    and "w' = w @ filter (\<lambda>r. idKey r = Inr None) rows"
  using assms
proof (induction rows arbitrary: m w)
  case Nil
  { case 1 then show ?case by (simp add: withKey_def) }
  { case 2 then show ?case by simp }
  { case 3 then show ?case by simp }
next
  case (Cons row rows)
  { case 1
    from 1 obtain key where key: "idKey row = Inr key"
      and rest: "(case key of Some s \<Rightarrow> splitRows rows (mapSet s row m) w
                 | None \<Rightarrow> splitRows rows m (w @ [row])) = Inr (m', w')"
      by (auto simp: bindE_Inr_iff)
    show ?case
    proof (cases key)
      case None
      with rest have "splitRows rows m (w @ [row]) = Inr (m', w')" by simp
      from Cons.IH(1)[OF this] key None show ?thesis by (simp add: withKey_def)
    next
      case (Some s)
      with rest have "splitRows rows (mapSet s row m) w = Inr (m', w')" by simp
      from Cons.IH(1)[OF this] key Some show ?thesis
        by (auto simp: withKey_def map_of_mapSet split: list.splits)
    qed }
  { case 2
    from 2(2) obtain key where key: "idKey row = Inr key"
      and rest: "(case key of Some s \<Rightarrow> splitRows rows (mapSet s row m) w
                 | None \<Rightarrow> splitRows rows m (w @ [row])) = Inr (m', w')"
      by (auto simp: bindE_Inr_iff)
    show ?case
    proof (cases key)
      case None
      with rest have "splitRows rows m (w @ [row]) = Inr (m', w')" by simp
      from Cons.IH(2)[OF _ this] 2(1) show ?thesis by simp
    next
      case (Some s)
      with rest have "splitRows rows (mapSet s row m) w = Inr (m', w')" by simp
      from Cons.IH(2)[OF _ this] 2(1) show ?thesis by (simp add: distinct_mapSet)
    qed }
  { case 3
    from 3 obtain key where key: "idKey row = Inr key"
      and rest: "(case key of Some s \<Rightarrow> splitRows rows (mapSet s row m) w
                 | None \<Rightarrow> splitRows rows m (w @ [row])) = Inr (m', w')"
      by (auto simp: bindE_Inr_iff)
    show ?case
    proof (cases key)
      case None
      with rest have "splitRows rows m (w @ [row]) = Inr (m', w')" by simp
      from Cons.IH(3)[OF this] key None show ?thesis by simp
    next
      case (Some s)
      with rest have "splitRows rows (mapSet s row m) w = Inr (m', w')" by simp
      from Cons.IH(3)[OF this] key Some show ?thesis by simp
    qed }
qed

lemma last_withKey_key: "withKey k rows = x # xs \<Longrightarrow> idKey (last (x # xs)) = Inr (Some k)"
proof -
  assume a: "withKey k rows = x # xs"
  have "last (x # xs) \<in> set (withKey k rows)" unfolding a by (rule last_in_set) simp
  then show ?thesis by (simp add: withKey_def)
qed

lemma filter_values_distinct:
  assumes "distinct (map fst m)" and "\<forall>(k', v) \<in> set m. key v = Some k'"
  shows "filter (\<lambda>v. key v = Some k) (map snd m) = (case map_of m k of None \<Rightarrow> [] | Some v \<Rightarrow> [v])"
  using assms
proof (induction m)
  case Nil
  then show ?case by simp
next
  case (Cons p m)
  obtain k' v' where p: "p = (k', v')" by (cases p)
  from Cons.prems p have kv: "key v' = Some k'" and d: "distinct (map fst m)" and nin: "k' \<notin> fst ` set m"
    and rest: "\<forall>(k', v) \<in> set m. key v = Some k'" by auto
  note IH = Cons.IH[OF d rest]
  show ?case
  proof (cases "k = k'")
    case True
    with nin have "map_of m k = None" by (simp add: map_of_eq_None_iff)
    with IH True p kv show ?thesis by simp
  next
    case False
    with IH p kv show ?thesis by simp
  qed
qed

lemma withKey_merged:
  assumes "splitRows rows [] [] = Inr (m, w)"
  shows "withKey k (map snd m @ w) = (case withKey k rows of [] \<Rightarrow> [] | x # xs \<Rightarrow> [last (x # xs)])"
proof -
  note inv = splitRows_inv[OF assms]
  have mo: "map_of m k = (case withKey k rows of [] \<Rightarrow> None | x # xs \<Rightarrow> Some (last (x # xs)))" for k
    using inv(1)[of k] by (cases "withKey k rows") simp_all
  have d: "distinct (map fst m)" using inv(2) by simp
  have w: "w = filter (\<lambda>r. idKey r = Inr None) rows" using inv(3) by simp
  have vals: "\<forall>(k', v) \<in> set m. (case idKey v of Inr (Some s) \<Rightarrow> Some s | _ \<Rightarrow> None) = Some k'"
  proof (clarify)
    fix k' v assume "(k', v) \<in> set m"
    with d have "map_of m k' = Some v" by simp
    with mo[of k'] obtain x xs where "withKey k' rows = x # xs" "v = last (x # xs)"
      by (auto split: list.splits)
    then have "idKey v = Inr (Some k')" by (simp add: last_withKey_key del: last.simps)
    then show "(case idKey v of Inr (Some s) \<Rightarrow> Some s | _ \<Rightarrow> None) = Some k'" by simp
  qed
  have eq: "(\<lambda>r. idKey r = Inr (Some k)) = (\<lambda>v. (case idKey v of Inr (Some s) \<Rightarrow> Some s | _ \<Rightarrow> None) = Some k)"
    by (auto simp: fun_eq_iff split: sum.splits option.splits)
  have "withKey k (map snd m) = (case map_of m k of None \<Rightarrow> [] | Some v \<Rightarrow> [v])"
    unfolding withKey_def eq by (rule filter_values_distinct[OF d vals])
  moreover have "withKey k w = []" unfolding w withKey_def by (auto simp: filter_empty_conv)
  ultimately show ?thesis
    by (simp add: withKey_def mo split: list.splits)
qed

lemma withKey_perm:
  assumes "mset ys = mset xs" and "withKey k xs = c" and "length c \<le> 1"
  shows "withKey k ys = c"
proof -
  have "mset (withKey k ys) = mset (withKey k xs)"
    using assms(1) by (simp add: withKey_def mset_filter)
  with assms(2) have m: "mset (withKey k ys) = mset c" by simp
  show ?thesis
  proof (cases c)
    case Nil
    with m show ?thesis by simp
  next
    case (Cons a cs)
    with assms(3) have "c = [a]" by simp
    with m show ?thesis by (simp add: mset_single_iff_right)
  qed
qed

lemma withKey_sliceTo:
  assumes "withKey k xs = c" and "length c \<le> 1"
  shows "withKey k (sliceTo n xs) = c \<or> withKey k (sliceTo n xs) = []"
proof -
  define j where "j = (if n < 0 then nat (int (length xs) + n) else nat n)"
  have j: "sliceTo n xs = take j xs" by (simp add: sliceTo_def j_def)
  have "withKey k (take j xs) @ withKey k (drop j xs) = c"
    using assms(1) by (metis append_take_drop_id filter_append withKey_def)
  with assms(2) show ?thesis unfolding j
    by (cases "withKey k (take j xs)"; cases c) auto
qed

section \<open>Lemmas: the cap of latestByDate\<close>

lemma length_mapSet: "length (mapSet k v m) \<le> Suc (length m)"
  by (induction m) auto

lemma splitRows_length:
  "splitRows rows m w = Inr (m', w') \<Longrightarrow> length m' + length w' \<le> length m + length w + length rows"
proof (induction rows arbitrary: m w)
  case Nil
  then show ?case by simp
next
  case (Cons row rows)
  from Cons.prems obtain key where key: "idKey row = Inr key"
    and rest: "(case key of Some s \<Rightarrow> splitRows rows (mapSet s row m) w
               | None \<Rightarrow> splitRows rows m (w @ [row])) = Inr (m', w')"
    by (auto simp: bindE_Inr_iff)
  show ?case
  proof (cases key)
    case None
    with rest have "splitRows rows m (w @ [row]) = Inr (m', w')" by simp
    from Cons.IH[OF this] show ?thesis by simp
  next
    case (Some s)
    with rest have "splitRows rows (mapSet s row m) w = Inr (m', w')" by simp
    from Cons.IH[OF this] length_mapSet[of s row m] show ?thesis by simp
  qed
qed

lemma sliceTo_all: "int (length xs) \<le> n \<Longrightarrow> sliceTo n xs = xs"
  by (simp add: sliceTo_def)

lemma sliceTo_shorter: "sliceTo n xs \<noteq> xs \<Longrightarrow> length (sliceTo n xs) < length xs"
  by (auto simp: sliceTo_def split: if_splits)

section \<open>Lemmas: resolved dates, the uncapped result, the questions walk\<close>

lemma orElse_Inr_zero [simp]: "orElse (Inr 0) b = b"
  by (simp add: orElse_def)

lemma orElse_Inr_nonzero [simp]: "x \<noteq> 0 \<Longrightarrow> orElse (Inr x) b = Inr x"
  by (simp add: orElse_def)

lemma rowDate_firstNonZero:
  assumes "map (fieldDate h a) dateFields = map Inr ds"
  shows "rowDate h a = Inr (firstNonZero ds)"
proof -
  have "length (map Inr ds :: (error + int) list) = length (map (fieldDate h a) dateFields)"
    using assms by simp
  then have "length ds = 5" by (simp add: dateFields_def)
  then obtain d1 d2 d3 d4 d5 where ds: "ds = [d1, d2, d3, d4, d5]"
    by (auto simp: length_Suc_conv numeral_eq_Suc)
  from assms show ?thesis
    unfolding ds dateFields_def rowDate_def firstNonZero_def
    by (cases "d1 = 0"; cases "d2 = 0"; cases "d3 = 0"; cases "d4 = 0"; cases "d5 = 0") simp_all
qed

lemma sorted_wrt_nth:
  "sorted_wrt P xs \<Longrightarrow> i < j \<Longrightarrow> j < length xs \<Longrightarrow> P (xs ! i) (xs ! j)"
  by (simp add: sorted_wrt_iff_nth_less)

lemma mergedRows_Inr:
  "mergedRows rows = Inr merged \<longleftrightarrow> (\<exists>m w. splitRows rows [] [] = Inr (m, w) \<and> merged = map snd m @ w)"
  by (cases "splitRows rows [] []") (auto simp: mergedRows_def)

lemma latestByDate_zero_mset:
  assumes "latestByDate h rows 0 = Inr out"
  shows "\<exists>merged. mergedRows rows = Inr merged \<and> mset out = mset merged"
proof -
  from assms obtain m w srt where
    sp: "splitRows rows [] [] = Inr (m, w)" and
    so: "sortByE (compareRows h) (map snd m @ w) = Inr srt" and
    out: "out = srt"
    unfolding latestByDate_Inr by auto
  from sp have "mergedRows rows = Inr (map snd m @ w)" by (auto simp: mergedRows_Inr)
  with sortByE_mset[OF so] out show ?thesis by auto
qed

lemma fetchLatestReviews_zero:
  assumes "fetchLatestReviews h http nmId 0 = Inr res"
  shows "\<exists>u a. fetchFeedbacks http nmId False 1 0 = Inr u \<and>
               fetchFeedbacks http nmId True 1 0 = Inr a \<and>
               latestByDate h (u @ a) 0 = Inr res"
  using assms by (auto simp: fetchLatestReviews_def bindE_Inr_iff)

lemma questionsWalk_total:
  "\<exists>r. questionsWalk http nmId isAnswered limit skip items = Some r"
proof (induction "nat (10001 - skip)" arbitrary: skip items rule: less_induct)
  case less
  show ?case
  proof (cases "int (length items) < limit")
    case False
    then show ?thesis by (subst questionsWalk.simps) simp
  next
    case True
    show ?thesis
    proof (cases "fetchQuestions http nmId isAnswered 1000 skip")
      case (Inl e)
      with True show ?thesis by (subst questionsWalk.simps) simp
    next
      case (Inr batch)
      show ?thesis
      proof (cases "length batch = 0 \<or> int (length batch) < 1000 \<or> skip + int (length batch) > 10000")
        case True
        with \<open>int (length items) < limit\<close> Inr show ?thesis
          by (subst questionsWalk.simps) auto
      next
        case False
        then have "nat (10001 - (skip + int (length batch))) < nat (10001 - skip)" by auto
        from less[OF this] obtain r where
          "questionsWalk http nmId isAnswered limit (skip + int (length batch)) (items @ batch) = Some r"
          by blast
        with False \<open>int (length items) < limit\<close> Inr show ?thesis
          by (subst questionsWalk.simps) auto
      qed
    qed
  qed
qed

lemma splitRows_nonempty:
  assumes "splitRows rows [] [] = Inr (m, w)" and "rows \<noteq> []"
  shows "map snd m @ w \<noteq> []"
proof -
  from assms(2) obtain row rest where rows: "rows = row # rest" by (cases rows) auto
  from assms(1) obtain key where key: "idKey row = Inr key"
    unfolding rows by (auto simp: bindE_Inr_iff)
  note inv = splitRows_inv[OF assms(1)]
  show ?thesis
  proof (cases key)
    case None
    with key inv(3) rows show ?thesis by simp
  next
    case (Some s)
    with key rows have "withKey s rows \<noteq> []" by (simp add: withKey_def)
    with inv(1)[of s] have "map_of m s \<noteq> None" by (auto split: list.splits)
    then show ?thesis by auto
  qed
qed

section \<open>Lemmas: the catalog\<close>

lemma insertBy_mset: "mset (insertBy cmp x ys) = add_mset x (mset ys)"
  by (induction ys) auto

lemma sortBy_mset: "mset (sortBy cmp xs) = mset xs"
  by (induction xs) (auto simp: insertBy_mset)

lemma sortBy_set: "set (sortBy cmp xs) = set xs"
  by (metis sortBy_mset set_mset_mset)

lemma sortBy_length: "length (sortBy cmp xs) = length xs"
  by (metis sortBy_mset size_mset)

lemma sortBy_distinct_map: "distinct (map f (sortBy cmp xs)) = distinct (map f xs)"
proof -
  have "mset (map f (sortBy cmp xs)) = mset (map f xs)" by (simp add: sortBy_mset)
  then show ?thesis by (metis distinct_count_atmost_1 set_mset_mset)
qed

lemma normalizeLoop_inv:
  assumes "normalizeLoop h cards seen products = Inr out"
  shows "\<exists>new. out = products @ new \<and> distinct (map nm_id new) \<and>
           set (map nm_id new) = {n. \<exists>c \<in> set cards. resolvesTo h n c} - seen \<and>
           (\<forall>p \<in> set new. \<exists>c. find (resolvesTo h (nm_id p)) cards = Some c \<and>
                                makeProduct h c (nm_id p) = Inr p)"
  using assms
proof (induction cards arbitrary: seen products)
  case Nil
  then show ?case by simp
next
  case (Cons c cards)
  from Cons.prems obtain r where r: "resolveNmId h c = Inr r"
    and rest: "(case r of None \<Rightarrow> normalizeLoop h cards seen products
       | Some nmId \<Rightarrow> if nmId \<in> seen then normalizeLoop h cards seen products
           else bindE (makeProduct h c nmId) (\<lambda>p. normalizeLoop h cards (insert nmId seen) (products @ [p])))
       = Inr out"
    by (auto simp: bindE_Inr_iff)
  show ?case
  proof (cases r)
    case None
    with rest have "normalizeLoop h cards seen products = Inr out" by simp
    from Cons.IH[OF this] obtain new where new: "out = products @ new" "distinct (map nm_id new)"
      "set (map nm_id new) = {n. \<exists>c \<in> set cards. resolvesTo h n c} - seen"
      "\<forall>p \<in> set new. \<exists>c. find (resolvesTo h (nm_id p)) cards = Some c \<and> makeProduct h c (nm_id p) = Inr p"
      by blast
    from r None have nr: "\<And>n. \<not> resolvesTo h n c" by (simp add: resolvesTo_def)
    then have "{n. \<exists>c' \<in> set (c # cards). resolvesTo h n c'} = {n. \<exists>c \<in> set cards. resolvesTo h n c}"
      by auto
    with new nr show ?thesis by (intro exI[of _ new]) simp
  next
    case (Some nmId)
    with r have rc: "resolvesTo h n c \<longleftrightarrow> n = nmId" for n by (auto simp: resolvesTo_def)
    then have S: "{n. \<exists>c' \<in> set (c # cards). resolvesTo h n c'} = insert nmId {n. \<exists>c \<in> set cards. resolvesTo h n c}"
      by auto
    show ?thesis
    proof (cases "nmId \<in> seen")
      case True
      with rest Some have "normalizeLoop h cards seen products = Inr out" by simp
      from Cons.IH[OF this] obtain new where new: "out = products @ new" "distinct (map nm_id new)"
        "set (map nm_id new) = {n. \<exists>c \<in> set cards. resolvesTo h n c} - seen"
        "\<forall>p \<in> set new. \<exists>c. find (resolvesTo h (nm_id p)) cards = Some c \<and> makeProduct h c (nm_id p) = Inr p"
        by blast
      have "\<forall>p \<in> set new. nm_id p \<noteq> nmId" using new(3) True by auto
      with new S True rc show ?thesis by (intro exI[of _ new]) auto
    next
      case False
      with rest Some obtain p where p: "makeProduct h c nmId = Inr p"
        and loop: "normalizeLoop h cards (insert nmId seen) (products @ [p]) = Inr out"
        by (auto simp: bindE_Inr_iff)
      from p have idp: "nm_id p = nmId" by (auto simp: makeProduct_def bindE_Inr_iff)
      from Cons.IH[OF loop] obtain new where new: "out = (products @ [p]) @ new" "distinct (map nm_id new)"
        "set (map nm_id new) = {n. \<exists>c \<in> set cards. resolvesTo h n c} - insert nmId seen"
        "\<forall>p \<in> set new. \<exists>c. find (resolvesTo h (nm_id p)) cards = Some c \<and> makeProduct h c (nm_id p) = Inr p"
        by blast
      have ne: "\<forall>q \<in> set new. nm_id q \<noteq> nmId" using new(3) by auto
      have "out = products @ (p # new)" using new(1) by simp
      moreover have "distinct (map nm_id (p # new))" using new(2) ne idp by auto
      moreover have "set (map nm_id (p # new)) = {n. \<exists>c' \<in> set (c # cards). resolvesTo h n c'} - seen"
        unfolding S using new(3) idp False by auto
      moreover have "\<forall>q \<in> set (p # new). \<exists>c'. find (resolvesTo h (nm_id q)) (c # cards) = Some c' \<and>
                                makeProduct h c' (nm_id q) = Inr q"
        using new(4) ne idp p rc by auto
      ultimately show ?thesis by blast
    qed
  qed
qed

lemma normalizeProducts_Inr:
  "normalizeProducts h cards = Inr ps \<longleftrightarrow>
     (\<exists>products. normalizeLoop h cards {} [] = Inr products \<and> ps = sortBy (compareProducts h) products)"
  by (auto simp: normalizeProducts_def bindE_Inr_iff)

lemma normalizeProducts_firsts:
  assumes "normalizeProducts h cards = Inr ps"
  shows "distinct (map nm_id ps) \<and>
         set (map nm_id ps) = {n. \<exists>c \<in> set cards. resolvesTo h n c} \<and>
         length ps = card {n. \<exists>c \<in> set cards. resolvesTo h n c} \<and>
         (\<forall>p \<in> set ps. \<exists>c. find (resolvesTo h (nm_id p)) cards = Some c \<and>
                              makeProduct h c (nm_id p) = Inr p)"
proof -
  from assms obtain products where l: "normalizeLoop h cards {} [] = Inr products"
    and ps: "ps = sortBy (compareProducts h) products"
    unfolding normalizeProducts_Inr by blast
  from normalizeLoop_inv[OF l] have d: "distinct (map nm_id products)"
    and s: "set (map nm_id products) = {n. \<exists>c \<in> set cards. resolvesTo h n c}"
    and f: "\<forall>p \<in> set products. \<exists>c. find (resolvesTo h (nm_id p)) cards = Some c \<and>
                              makeProduct h c (nm_id p) = Inr p"
    by auto
  have d': "distinct (map nm_id ps)" unfolding ps using d by (simp add: sortBy_distinct_map)
  have s': "set (map nm_id ps) = {n. \<exists>c \<in> set cards. resolvesTo h n c}"
    unfolding ps using s by (simp add: sortBy_set)
  have "length ps = card (set (map nm_id ps))" using d' by (metis distinct_card length_map)
  with d' s' f show ?thesis by (simp add: ps sortBy_set)
qed

lemma normalizeProducts_length:
  assumes "normalizeProducts h cards = Inr ps"
  shows "length ps \<le> length cards"
proof -
  from normalizeProducts_firsts[OF assms]
  have "length ps = card {n. \<exists>c \<in> set cards. resolvesTo h n c}"
    and f: "\<forall>p \<in> set ps. \<exists>c. find (resolvesTo h (nm_id p)) cards = Some c \<and> makeProduct h c (nm_id p) = Inr p"
    and d: "distinct (map nm_id ps)"
    by auto
  define pick where "pick p = the (find (resolvesTo h (nm_id p)) cards)" for p :: product
  have pk: "pick p \<in> set cards \<and> resolvesTo h (nm_id p) (pick p)" if "p \<in> set ps" for p
  proof -
    from f that obtain c where c: "find (resolvesTo h (nm_id p)) cards = Some c" by blast
    then have "pick p = c" by (simp add: pick_def)
    moreover from c have "c \<in> set cards \<and> resolvesTo h (nm_id p) c"
      by (auto simp: find_Some_iff)
    ultimately show ?thesis by simp
  qed
  have inj: "inj_on pick (set ps)"
  proof (rule inj_onI)
    fix p q assume p: "p \<in> set ps" and q: "q \<in> set ps" and e: "pick p = pick q"
    from pk[OF p] pk[OF q] e have "nm_id p = nm_id q" by (auto simp: resolvesTo_def)
    with d p q show "p = q" by (metis distinct_map inj_onD)
  qed
  have "distinct ps" using d by (simp add: distinct_map)
  then have "length ps = card (set ps)" by (simp add: distinct_card)
  also have "\<dots> = card (pick ` set ps)" using inj by (simp add: card_image)
  also have "\<dots> \<le> card (set cards)" using pk by (intro card_mono) auto
  also have "\<dots> \<le> length cards" by (rule card_length)
  finally show ?thesis .
qed

lemma sliceTo_length: "0 \<le> n \<Longrightarrow> int (length (sliceTo n xs)) \<le> n"
  by (simp add: sliceTo_def)

lemma fetchProductCards_Inr:
  "fetchProductCards h http pageSize maxItems = Some (Inr ps) \<longleftrightarrow>
     (\<exists>cards. cardsLoop h http pageSize maxItems (None, None) [] = Some (Inr cards) \<and>
        normalizeProducts h (sliceTo maxItems cards) = Inr ps)"
  by (auto simp: fetchProductCards_def split: option.splits sum.splits)

lemma insertBy_append:
  "\<forall>q \<in> set L. cmp x q \<le> 0 \<Longrightarrow> insertBy cmp x (S @ L) = insertBy cmp x S @ L"
proof (induction S)
  case Nil
  then show ?case by (cases L) auto
next
  case (Cons y S)
  then show ?case by simp
qed

lemma sortBy_append:
  "\<forall>p \<in> set P. \<forall>q \<in> set Q. cmp p q \<le> 0 \<Longrightarrow> sortBy cmp (P @ Q) = sortBy cmp P @ sortBy cmp Q"
  by (induction P) (auto simp: insertBy_append sortBy_set)

lemma collectItem_base: "c \<in> set (collectItem b i item) \<Longrightarrow> fst c = b"
  by (cases item) (auto simp: collectItem_def Let_def split: option.splits json.splits if_splits)

lemma collect_base: "c \<in> set (collect items b) \<Longrightarrow> fst c = b"
  by (auto simp: collect_def split: option.splits json.splits dest: collectItem_base)

lemma compareCandidates_base: "fst q < fst p \<Longrightarrow> compareCandidates p q \<le> 0"
  by (cases p; cases q) auto

lemma collectItem_tm:
  assumes "map_of ekvs (js ''tm'') = Some (JStr u)" and "startsWithHttp u"
  shows "collectItem b i (JObj ekvs) \<noteq> []"
  using assms by (simp add: collectItem_def keyScores_def Let_def)

lemma collect_tm:
  assumes "JObj ekvs \<in> set ps" and "map_of ekvs (js ''tm'') = Some (JStr u)" and "startsWithHttp u"
  shows "collect (Some (JArr ps)) b \<noteq> []"
proof -
  from assms(1) obtain i where i: "i < length ps" "ps ! i = JObj ekvs"
    by (auto simp: in_set_conv_nth)
  then have "(i, JObj ekvs) \<in> set (enumerate 0 ps)"
    by (auto simp: in_set_enumerate_eq)
  moreover have "collectItem b i (JObj ekvs) \<noteq> []" using assms(2,3) by (rule collectItem_tm)
  ultimately show ?thesis by (force simp: collect_def)
qed

lemma collect_single_tm:
  "startsWithHttp u \<Longrightarrow> collect (Some (JArr [JObj [(js ''tm'', JStr u)]])) b = [(b, 0, 45, 0, u)]"
  by (simp add: collect_def collectItem_def keyScores_def js_def)

section \<open>Lemmas: the verification\<close>

lemma verifyInitData_Accepted:
  "verifyInitData p initData botToken maxAgeSeconds = Accepted data user \<longleftrightarrow>
     initData \<noteq> [] \<and> data = parseInitData p initData \<and>
     (\<exists>token hash. botToken = Some token \<and> token \<noteq> [] \<and>
        map_of data (js ''hash'') = Some hash \<and> hash \<noteq> [] \<and> computedHash p data token = hash) \<and>
     \<not> expired p data maxAgeSeconds \<and>
     (case map_of data (js ''user'') of
        None \<Rightarrow> user = JNull
      | Some u \<Rightarrow> if u = [] then user = JNull else jsonParse p u = Some user)"
  by (auto simp: verifyInitData_def Let_def split: option.splits)

lemma insort_key_fst_map:
  "insort_key fst (k, f k) (map (\<lambda>k. (k, f k)) ys) = map (\<lambda>k. (k, f k)) (insort k ys)"
  by (induction ys) auto

lemma sort_key_fst_map:
  "sort_key fst (map (\<lambda>k. (k, f k)) ks) = map (\<lambda>k. (k, f k)) (sort ks)"
  by (induction ks) (auto simp: insort_key_fst_map)

lemma pairs_of_keys:
  "distinct (map fst xs) \<Longrightarrow> map (\<lambda>k. (k, the (map_of xs k))) (map fst xs) = xs"
  by (induction xs) (auto simp: image_iff intro!: map_idI)

lemma sort_key_fst_lookup:
  assumes "distinct (map fst xs)"
  shows "sort_key fst xs = map (\<lambda>k. (k, the (map_of xs k))) (sort (map fst xs))"
proof -
  have "sort_key fst xs = sort_key fst (map (\<lambda>k. (k, the (map_of xs k))) (map fst xs))"
    using pairs_of_keys[OF assms] by simp
  then show ?thesis by (simp only: sort_key_fst_map)
qed

lemma buildDataCheckString_pairs:
  assumes "distinct (map fst data)"
  shows "buildDataCheckString data = checkStringOfPairs data"
proof -
  define xs where "xs = filter (\<lambda>(key, v). key \<noteq> js ''hash'') data"
  have keys: "map fst xs = filter (\<lambda>key. key \<noteq> js ''hash'') (map fst data)"
    unfolding xs_def by (induction data) auto
  have d: "distinct (map fst xs)" unfolding keys using assms by simp
  have look: "map_of data k = Some (the (map_of xs k))" if "k \<in> set (map fst xs)" for k
  proof -
    from that obtain v where v: "(k, v) \<in> set xs" by auto
    then have "(k, v) \<in> set data" by (simp add: xs_def)
    with assms have "map_of data k = Some v" by simp
    moreover from v d have "map_of xs k = Some v" by simp
    ultimately show ?thesis by simp
  qed
  have "map (\<lambda>key. key @ js ''='' @ (case map_of data key of Some v \<Rightarrow> v | None \<Rightarrow> js ''undefined''))
          (sort (map fst xs))
      = map (\<lambda>key. key @ js ''='' @ the (map_of xs key)) (sort (map fst xs))"
    by (rule map_cong) (auto simp: look)
  also have "\<dots> = map (\<lambda>(key, v). key @ js ''='' @ v) (map (\<lambda>k. (k, the (map_of xs k))) (sort (map fst xs)))"
    by simp
  also have "\<dots> = map (\<lambda>(key, v). key @ js ''='' @ v) (sort_key fst xs)"
    by (simp only: sort_key_fst_lookup[OF d])
  finally show ?thesis
    unfolding buildDataCheckString_def checkStringOfPairs_def Let_def keys[symmetric] xs_def[symmetric]
    by simp
qed

lemma foldl_mapSet_distinct:
  "distinct (map fst acc) \<Longrightarrow>
   distinct (map fst (foldl (\<lambda>data (key, v). if key = skip then data else mapSet key v data) acc entries))"
  by (induction entries arbitrary: acc) (auto simp: distinct_mapSet)

lemma parseInitData_distinct: "distinct (map fst (parseInitData p initData))"
  unfolding parseInitData_def by (rule foldl_mapSet_distinct) simp

section \<open>Lemmas: the serializer\<close>

lemma sequenceE_Inr: "sequenceE ms = Inr xs \<longleftrightarrow> ms = map Inr xs"
proof (induction ms arbitrary: xs)
  case Nil
  then show ?case by auto
next
  case (Cons m ms)
  show ?case
  proof (cases m)
    case (Inl e)
    then show ?thesis by (cases xs) auto
  next
    case (Inr x)
    with Cons.IH show ?thesis by (cases xs) (auto simp: bindE_Inr_iff)
  qed
qed

lemma csvHeaders_sorted_union:
  "sorted (csvHeaders flattened) \<and> distinct (csvHeaders flattened) \<and>
   set (csvHeaders flattened) = (\<Union>row \<in> set flattened. fst ` set (ownProps row))"
  by (auto simp: csvHeaders_def)

lemma csvLine_cells:
  assumes "csvLine headers row = Inr line"
  shows "\<exists>cells. line = joinWith (js '','') cells \<and> length cells = length headers \<and>
           (\<forall>j < length headers. csvEscape (outputGet row (headers ! j)) = Inr (cells ! j))"
proof -
  from assms obtain cells where c: "map (\<lambda>key. csvEscape (outputGet row key)) headers = map Inr cells"
    and l: "line = joinWith (js '','') cells"
    by (auto simp: csvLine_def bindE_Inr_iff sequenceE_Inr)
  from c have len: "length cells = length headers" by (metis length_map)
  have "csvEscape (outputGet row (headers ! j)) = Inr (cells ! j)" if "j < length headers" for j
    using c that len by (metis nth_map)
  with l len show ?thesis by blast
qed

lemma outputGet_missing:
  assumes "map_of (ownProps row) key = None"
    and "hasPrototype row \<longrightarrow> map_of objectPrototype key = None"
  shows "csvEscape (outputGet row key) = Inr []"
  using assms by (auto simp: outputGet_def csvEscape_def)

lemma toCsv_shape:
  assumes "toCsv h rows = Inr out"
  shows "\<exists>dataLines.
           out = 0xFEFF # joinWith [10]
                   (joinWith (js '','') (csvHeaders (map (flattenRow h) rows)) # dataLines) \<and>
           length dataLines = length rows \<and>
           (\<forall>i < length rows.
              csvLine (csvHeaders (map (flattenRow h) rows)) (flattenRow h (rows ! i)) = Inr (dataLines ! i))"
proof -
  let ?hs = "csvHeaders (map (flattenRow h) rows)"
  from assms obtain dataLines where
    c: "map (csvLine ?hs) (map (flattenRow h) rows) = map Inr dataLines"
    and o: "out = 0xFEFF # joinWith [10] (joinWith (js '','') ?hs # dataLines)"
    by (auto simp: toCsv_def Let_def bindE_Inr_iff sequenceE_Inr)
  from c have len: "length dataLines = length rows" by (metis length_map)
  have "csvLine ?hs (flattenRow h (rows ! i)) = Inr (dataLines ! i)" if "i < length rows" for i
  proof -
    have "map (csvLine ?hs) (map (flattenRow h) rows) ! i = csvLine ?hs (flattenRow h (rows ! i))"
      using that by simp
    moreover have "map Inr dataLines ! i = Inr (dataLines ! i)" using that len by simp
    ultimately show ?thesis using c by metis
  qed
  with o len show ?thesis by blast
qed

section \<open>Claims on latestByDate\<close>

text \<open>
  C1 (as the code has it).  Among the rows that carry one non-null id, \<open>latestByDate\<close>
  keeps one row at most, and it is the last of them in input order, since
  \<open>Map.prototype.set\<close> overwrites the value stored under the key; rows of an id that the
  input does not carry do not appear.  Only the final cap can remove the kept row: the
  output is the uncapped ranking, which holds the last row of every id, cut by
  \<open>slice(0, limit)\<close> when \<open>limit\<close> is not zero; it is the whole ranking when \<open>limit\<close>
  is zero or at least the number of input rows, and a kept row is missing from the
  output only when the cut made the output shorter than the ranking.
\<close>

theorem latestByDate_keeps_last:
  assumes "latestByDate h rows limit = Inr out"
  shows "\<exists>ranked. latestByDate h rows 0 = Inr ranked \<and>
           out = (if limit = 0 then ranked else sliceTo limit ranked) \<and>
           (limit = 0 \<or> int (length rows) \<le> limit \<longrightarrow> out = ranked) \<and>
           withKey k ranked = (if withKey k rows = [] then [] else [last (withKey k rows)]) \<and>
           (withKey k rows = [] \<longrightarrow> withKey k out = []) \<and>
           (withKey k rows \<noteq> [] \<longrightarrow>
              withKey k out = [last (withKey k rows)] \<or>
              (limit \<noteq> 0 \<and> withKey k out = [] \<and> length out < length ranked))"
proof -
  from assms obtain m w srt where
    sp: "splitRows rows [] [] = Inr (m, w)" and
    so: "sortByE (compareRows h) (map snd m @ w) = Inr srt" and
    out: "out = (if limit \<noteq> 0 then sliceTo limit srt else srt)"
    unfolding latestByDate_Inr by blast
  define c where "c = (if withKey k rows = [] then [] else [last (withKey k rows)])"
  have c': "c = (case withKey k rows of [] \<Rightarrow> [] | x # xs \<Rightarrow> [last (x # xs)])"
    by (simp add: c_def split: list.splits)
  have len: "length c \<le> 1" by (simp add: c_def)
  have zero: "latestByDate h rows 0 = Inr srt"
    unfolding latestByDate_Inr using sp so by simp
  have "length srt = length (map snd m @ w)"
    using sortByE_mset[OF so] by (rule mset_eq_length)
  also have "\<dots> \<le> length rows" using splitRows_length[OF sp] by simp
  finally have ls: "length srt \<le> length rows" .
  have wide: "out = srt" if "limit = 0 \<or> int (length rows) \<le> limit"
    using that out ls by (auto simp: sliceTo_all)
  have "withKey k (map snd m @ w) = c" unfolding c' by (rule withKey_merged[OF sp])
  then have srt: "withKey k srt = c" by (rule withKey_perm[OF sortByE_mset[OF so] _ len])
  have cut: "withKey k out = c \<or> (limit \<noteq> 0 \<and> withKey k out = [] \<and> length out < length srt)"
  proof (cases "out = srt")
    case True
    with srt show ?thesis by simp
  next
    case False
    with out have l: "limit \<noteq> 0" and o: "out = sliceTo limit srt" by (auto split: if_splits)
    from False o have "length out < length srt" by (simp add: sliceTo_shorter)
    with withKey_sliceTo[OF srt len, of limit] l o show ?thesis by auto
  qed
  have e: "withKey k out = []" if "withKey k rows = []"
    using cut that by (auto simp: c_def)
  have n: "withKey k out = [last (withKey k rows)] \<or>
      (limit \<noteq> 0 \<and> withKey k out = [] \<and> length out < length srt)" if "withKey k rows \<noteq> []"
    using cut that by (auto simp: c_def)
  from zero out wide srt e n show ?thesis unfolding c_def by (intro exI[of _ srt]) auto
qed

text \<open>
  On the rows of the claim's example, with the cap of 500 that the handlers pass: the
  output is the whole ranking, and the row kept for id 1 is the one dated 2024-01-02,
  the last that carries the id; no row appears for id 9.  With a cap of 1 the output is
  the first row of the ranking, and the row of id 1 is the one the cut removed.
\<close>

theorem latestByDate_keeps_last_witness:
  "latestByDate exampleHost
     [feedbackItem 1 ''2024-01-01'', feedbackItem 2 ''2024-03-01'', feedbackItem 1 ''2024-01-02''] 500
     = Inr [feedbackItem 2 ''2024-03-01'', feedbackItem 1 ''2024-01-02''] \<and>
   (\<exists>ranked. latestByDate exampleHost
      [feedbackItem 1 ''2024-01-01'', feedbackItem 2 ''2024-03-01'', feedbackItem 1 ''2024-01-02''] 0
      = Inr ranked \<and>
      [feedbackItem 2 ''2024-03-01'', feedbackItem 1 ''2024-01-02''] = ranked \<and>
      withKey (js ''1'') ranked = [feedbackItem 1 ''2024-01-02''] \<and>
      withKey (js ''9'') ranked = [] \<and>
      [feedbackItem 2 ''2024-03-01''] = sliceTo 1 ranked) \<and>
   withKey (js ''1'') [feedbackItem 2 ''2024-03-01'', feedbackItem 1 ''2024-01-02'']
     = [last (withKey (js ''1'')
         [feedbackItem 1 ''2024-01-01'', feedbackItem 2 ''2024-03-01'', feedbackItem 1 ''2024-01-02''])] \<and>
   withKey (js ''9'') [feedbackItem 2 ''2024-03-01'', feedbackItem 1 ''2024-01-02''] = [] \<and>
   latestByDate exampleHost
     [feedbackItem 1 ''2024-01-01'', feedbackItem 2 ''2024-03-01'', feedbackItem 1 ''2024-01-02''] 1
     = Inr [feedbackItem 2 ''2024-03-01''] \<and>
   withKey (js ''1'') [feedbackItem 2 ''2024-03-01''] = []"
proof -
  let ?rows = "[feedbackItem 1 ''2024-01-01'', feedbackItem 2 ''2024-03-01'', feedbackItem 1 ''2024-01-02'']"
  have e: "latestByDate exampleHost ?rows 500
     = Inr [feedbackItem 2 ''2024-03-01'', feedbackItem 1 ''2024-01-02'']"
    by code_simp
  have e1: "latestByDate exampleHost ?rows 1 = Inr [feedbackItem 2 ''2024-03-01'']"
    by code_simp
  have ne: "withKey (js ''1'') ?rows \<noteq> []"
    by code_simp
  have la: "last (withKey (js ''1'') ?rows) = feedbackItem 1 ''2024-01-02''"
    by code_simp
  have em: "withKey (js ''9'') ?rows = []"
    by code_simp
  have w1: "withKey (js ''1'') [feedbackItem 2 ''2024-03-01''] = []"
    by code_simp
  from latestByDate_keeps_last[OF e, of "js ''1''"] obtain ranked where
    z: "latestByDate exampleHost ?rows 0 = Inr ranked" and
    r: "[feedbackItem 2 ''2024-03-01'', feedbackItem 1 ''2024-01-02''] = ranked" and
    k1: "withKey (js ''1'') ranked = [feedbackItem 1 ''2024-01-02'']"
    using ne la by auto
  from latestByDate_keeps_last[OF e, of "js ''9''"] z have k9: "withKey (js ''9'') ranked = []"
    using em by auto
  from latestByDate_keeps_last[OF e1, of "js ''1''"] z
  have c1: "[feedbackItem 2 ''2024-03-01''] = sliceTo 1 ranked"
    by auto
  from e e1 z r k1 k9 c1 w1 la show ?thesis by auto
qed

text \<open>
  C1 as stated fails on its own example: the output holds the row of id 1 dated
  2024-01-02, not the first-seen one dated 2024-01-01.
\<close>

theorem latestByDate_first_seen_counterexample:
  "latestByDate exampleHost
     [feedbackItem 1 ''2024-01-01'', feedbackItem 2 ''2024-03-01'', feedbackItem 1 ''2024-01-02''] 500
     = Inr [feedbackItem 2 ''2024-03-01'', feedbackItem 1 ''2024-01-02''] \<and>
   latestByDate exampleHost
     [feedbackItem 1 ''2024-01-01'', feedbackItem 2 ''2024-03-01'', feedbackItem 1 ''2024-01-02''] 500
     \<noteq> Inr [feedbackItem 2 ''2024-03-01'', feedbackItem 1 ''2024-01-01'']"
  by code_simp

text \<open>
  C5 (as the code has it).  The output of \<open>latestByDate\<close> is in non-increasing order of the
  resolved dates of its items, all of which resolve.  The resolved date is the first
  non-zero result of parsing \<open>createdDate\<close>, \<open>createdAt\<close>, \<open>date\<close>, \<open>created\<close>,
  \<open>updatedDate\<close> in that order, and zero when every one of them is missing or does not
  parse.  An item that resolves to zero is followed by no item of a positive date; items
  dated before the epoch come after it.
\<close>

theorem latestByDate_descending:
  assumes "latestByDate h rows limit = Inr out"
  shows "sorted_wrt (dateGe h) out \<and>
         (\<forall>a ds. map (fieldDate h a) dateFields = map Inr ds \<longrightarrow> rowDate h a = Inr (firstNonZero ds)) \<and>
         (\<forall>i j. i < j \<and> j < length out \<and> rowDate h (out ! i) = Inr 0 \<longrightarrow>
            (\<exists>d. rowDate h (out ! j) = Inr d \<and> d \<le> 0))"
proof -
  have s: "sorted_wrt (dateGe h) out" using assms by (rule latestByDate_sorted)
  have z: "\<exists>d. rowDate h (out ! j) = Inr d \<and> d \<le> 0"
    if "i < j" "j < length out" "rowDate h (out ! i) = Inr 0" for i j
  proof -
    from sorted_wrt_nth[OF s that(1,2)] have "dateGe h (out ! i) (out ! j)" .
    with that(3) show ?thesis by (auto simp: dateGe_def)
  qed
  from s z show ?thesis by (auto simp: rowDate_firstNonZero)
qed

text \<open>Three items, one of them without a date: it comes last, after the dated ones.\<close>

theorem latestByDate_descending_witness:
  "latestByDate exampleHost [feedbackItem 1 ''2024-01-01'', undated, feedbackItem 2 ''2024-03-01''] 0
     = Inr [feedbackItem 2 ''2024-03-01'', feedbackItem 1 ''2024-01-01'', undated] \<and>
   sorted_wrt (dateGe exampleHost) [feedbackItem 2 ''2024-03-01'', feedbackItem 1 ''2024-01-01'', undated] \<and>
   rowDate exampleHost undated = Inr (firstNonZero [0, 0, 0, 0, 0]) \<and>
   rowDate exampleHost (feedbackItem 1 ''2024-01-01'') = Inr (firstNonZero [1704067200000, 0, 0, 0, 0])"
proof -
  have e: "latestByDate exampleHost [feedbackItem 1 ''2024-01-01'', undated, feedbackItem 2 ''2024-03-01''] 0
     = Inr [feedbackItem 2 ''2024-03-01'', feedbackItem 1 ''2024-01-01'', undated]"
    by code_simp
  have z: "map (fieldDate exampleHost undated) dateFields = map Inr [0, 0, 0, 0, 0]"
    by code_simp
  have d: "map (fieldDate exampleHost (feedbackItem 1 ''2024-01-01'')) dateFields
     = map Inr [1704067200000, 0, 0, 0, 0]"
    by code_simp
  from latestByDate_descending[OF e] e z d show ?thesis by blast
qed

text \<open>
  C5 as stated fails where it says that an item without a date ranks last: a date before
  1970 parses to a negative number, and the undated item, at zero, ranks before it.
\<close>

theorem latestByDate_undated_not_last_counterexample:
  "latestByDate exampleHost [dated ''1969-12-31'', undated] 0 = Inr [undated, dated ''1969-12-31''] \<and>
   rowDate exampleHost undated = Inr 0 \<and>
   rowDate exampleHost (dated ''1969-12-31'') = Inr (- 86400000)"
  by code_simp

text \<open>
  C10.  With \<open>limit = 0\<close> the final cap is skipped: \<open>latestByDate\<close> returns all merged
  rows, ranked, and so a non-empty list for non-empty rows; \<open>fetchLatestReviews\<close> asks
  each partition for \<open>min(max(0, 1), 500) = 1\<close> item and returns every merged item of
  the two answers.
\<close>

theorem limit_zero_uncapped:
  "(latestByDate h rows 0 = Inr out \<longrightarrow>
      (\<exists>merged. mergedRows rows = Inr merged \<and> mset out = mset merged) \<and>
      sorted_wrt (dateGe h) out \<and> (rows \<noteq> [] \<longrightarrow> out \<noteq> [])) \<and>
   (fetchLatestReviews h http nmId 0 = Inr res \<longrightarrow>
      (\<exists>u a. fetchFeedbacks http nmId False 1 0 = Inr u \<and>
             fetchFeedbacks http nmId True 1 0 = Inr a \<and>
             latestByDate h (u @ a) 0 = Inr res))"
proof (intro conjI impI)
  assume a: "latestByDate h rows 0 = Inr out"
  from latestByDate_zero_mset[OF a]
  show "\<exists>merged. mergedRows rows = Inr merged \<and> mset out = mset merged" .
  from a show "sorted_wrt (dateGe h) out" by (rule latestByDate_sorted)
  assume ne: "rows \<noteq> []"
  from a obtain m w where sp: "splitRows rows [] [] = Inr (m, w)"
    and so: "sortByE (compareRows h) (map snd m @ w) = Inr out"
    unfolding latestByDate_Inr by auto
  from splitRows_nonempty[OF sp ne] sortByE_mset[OF so] show "out \<noteq> []" by auto
next
  assume "fetchLatestReviews h http nmId 0 = Inr res"
  then show "\<exists>u a. fetchFeedbacks http nmId False 1 0 = Inr u \<and>
             fetchFeedbacks http nmId True 1 0 = Inr a \<and>
             latestByDate h (u @ a) 0 = Inr res"
    by (rule fetchLatestReviews_zero)
qed

text \<open>
  An endpoint that answers only a request for one item, with one unanswered and two
  answered reviews: all three come back.
\<close>

theorem limit_zero_uncapped_witness:
  "fetchLatestReviews exampleHost reviewsHttp 7 0
     = Inr [feedbackItem 2 ''2024-03-01'', feedbackItem 3 ''2024-02-01'', feedbackItem 1 ''2024-01-01''] \<and>
   (\<exists>u a. fetchFeedbacks reviewsHttp 7 False 1 0 = Inr u \<and>
          fetchFeedbacks reviewsHttp 7 True 1 0 = Inr a \<and>
          latestByDate exampleHost (u @ a) 0
            = Inr [feedbackItem 2 ''2024-03-01'', feedbackItem 3 ''2024-02-01'', feedbackItem 1 ''2024-01-01'']) \<and>
   latestByDate exampleHost
     [feedbackItem 1 ''2024-01-01'', feedbackItem 2 ''2024-03-01'', feedbackItem 3 ''2024-02-01''] 0
     = Inr [feedbackItem 2 ''2024-03-01'', feedbackItem 3 ''2024-02-01'', feedbackItem 1 ''2024-01-01''] \<and>
   (\<exists>merged.
      mergedRows [feedbackItem 1 ''2024-01-01'', feedbackItem 2 ''2024-03-01'', feedbackItem 3 ''2024-02-01'']
        = Inr merged \<and>
      mset [feedbackItem 2 ''2024-03-01'', feedbackItem 3 ''2024-02-01'', feedbackItem 1 ''2024-01-01'']
        = mset merged)"
proof -
  have e: "fetchLatestReviews exampleHost reviewsHttp 7 0
     = Inr [feedbackItem 2 ''2024-03-01'', feedbackItem 3 ''2024-02-01'', feedbackItem 1 ''2024-01-01'']"
    by code_simp
  have l: "latestByDate exampleHost
     [feedbackItem 1 ''2024-01-01'', feedbackItem 2 ''2024-03-01'', feedbackItem 3 ''2024-02-01''] 0
     = Inr [feedbackItem 2 ''2024-03-01'', feedbackItem 3 ''2024-02-01'', feedbackItem 1 ''2024-01-01'']"
    by code_simp
  from limit_zero_uncapped[of exampleHost
      "[feedbackItem 1 ''2024-01-01'', feedbackItem 2 ''2024-03-01'', feedbackItem 3 ''2024-02-01'']"
      "[feedbackItem 2 ''2024-03-01'', feedbackItem 3 ''2024-02-01'', feedbackItem 1 ''2024-01-01'']"
      reviewsHttp 7
      "[feedbackItem 2 ''2024-03-01'', feedbackItem 3 ''2024-02-01'', feedbackItem 1 ''2024-01-01'']"] e l
  show ?thesis by blast
qed

section \<open>Claims on the questions walk\<close>

text \<open>
  C9.  For every transport, each partition walk of \<open>fetchAllQuestions\<close> ends, and so does
  \<open>fetchAllQuestions\<close>.  A walk stops when the items are no longer fewer than \<open>limit\<close>,
  when a page has fewer than 1000 items, and when the offset, advanced by the size of the
  page, exceeds 10000.
\<close>

theorem fetchAllQuestions_total:
  "(\<exists>r. fetchAllQuestions h http nmId limit = Some r) \<and>
   (\<exists>r. questionsWalk http nmId isAnswered limit skip items = Some r) \<and>
   (\<not> int (length items) < limit \<longrightarrow>
      questionsWalk http nmId isAnswered limit skip items = Some (Inr items)) \<and>
   (int (length items) < limit \<and> fetchQuestions http nmId isAnswered 1000 skip = Inr batch \<and>
    int (length batch) < 1000 \<longrightarrow>
      questionsWalk http nmId isAnswered limit skip items = Some (Inr (items @ batch))) \<and>
   (int (length items) < limit \<and> fetchQuestions http nmId isAnswered 1000 skip = Inr batch \<and>
    skip + int (length batch) > 10000 \<longrightarrow>
      questionsWalk http nmId isAnswered limit skip items = Some (Inr (items @ batch)))"
proof (intro conjI impI)
  obtain r1 where r1: "questionsWalk http nmId False limit 0 [] = Some r1"
    using questionsWalk_total by blast
  show "\<exists>r. fetchAllQuestions h http nmId limit = Some r"
  proof (cases r1)
    case (Inl e)
    with r1 show ?thesis by (simp add: fetchAllQuestions_def)
  next
    case (Inr unanswered)
    obtain r2 where r2: "questionsWalk http nmId True limit 0 unanswered = Some r2"
      using questionsWalk_total by blast
    with r1 Inr show ?thesis by (cases r2) (simp_all add: fetchAllQuestions_def)
  qed
next
  show "\<exists>r. questionsWalk http nmId isAnswered limit skip items = Some r"
    by (rule questionsWalk_total)
next
  assume "\<not> int (length items) < limit"
  then show "questionsWalk http nmId isAnswered limit skip items = Some (Inr items)"
    by (subst questionsWalk.simps) simp
next
  assume "int (length items) < limit \<and> fetchQuestions http nmId isAnswered 1000 skip = Inr batch \<and>
    int (length batch) < 1000"
  then show "questionsWalk http nmId isAnswered limit skip items = Some (Inr (items @ batch))"
    by (subst questionsWalk.simps) auto
next
  assume "int (length items) < limit \<and> fetchQuestions http nmId isAnswered 1000 skip = Inr batch \<and>
    skip + int (length batch) > 10000"
  then show "questionsWalk http nmId isAnswered limit skip items = Some (Inr (items @ batch))"
    by (subst questionsWalk.simps) auto
qed

text \<open>
  Two unanswered questions and one answered: both walks stop at their short page.  A walk
  with \<open>limit = 0\<close> stops at once, and one that starts beyond the ceiling stops after
  its first page.
\<close>

theorem fetchAllQuestions_total_witness:
  "fetchAllQuestions exampleHost questionsHttp 7 10000
     = Some (Inr [feedbackItem 2 ''2024-03-01'', feedbackItem 3 ''2024-02-01'', feedbackItem 1 ''2024-01-01'']) \<and>
   questionsWalk questionsHttp 7 False 0 0 [] = Some (Inr []) \<and>
   questionsWalk questionsHttp 7 False 10000 10001 [feedbackItem 1 ''2024-01-01'']
     = Some (Inr [feedbackItem 1 ''2024-01-01''])"
proof -
  have f1: "fetchQuestions questionsHttp 7 False 1000 0
     = Inr [feedbackItem 1 ''2024-01-01'', feedbackItem 3 ''2024-02-01'']"
    by code_simp
  have f2: "fetchQuestions questionsHttp 7 True 1000 0 = Inr [feedbackItem 2 ''2024-03-01'']"
    by code_simp
  have w1: "questionsWalk questionsHttp 7 False 10000 0 []
     = Some (Inr [feedbackItem 1 ''2024-01-01'', feedbackItem 3 ''2024-02-01''])"
    using fetchAllQuestions_total[of exampleHost questionsHttp 7 10000 False 0 "[]"
        "[feedbackItem 1 ''2024-01-01'', feedbackItem 3 ''2024-02-01'']"] f1
    by simp
  have w2: "questionsWalk questionsHttp 7 True 10000 0
       [feedbackItem 1 ''2024-01-01'', feedbackItem 3 ''2024-02-01'']
     = Some (Inr [feedbackItem 1 ''2024-01-01'', feedbackItem 3 ''2024-02-01'', feedbackItem 2 ''2024-03-01''])"
    using fetchAllQuestions_total[of exampleHost questionsHttp 7 10000 True 0
        "[feedbackItem 1 ''2024-01-01'', feedbackItem 3 ''2024-02-01'']"
        "[feedbackItem 2 ''2024-03-01'']"] f2
    by simp
  have l: "latestByDate exampleHost
       [feedbackItem 1 ''2024-01-01'', feedbackItem 3 ''2024-02-01'', feedbackItem 2 ''2024-03-01''] 10000
     = Inr [feedbackItem 2 ''2024-03-01'', feedbackItem 3 ''2024-02-01'', feedbackItem 1 ''2024-01-01'']"
    by code_simp
  have w3: "questionsWalk questionsHttp 7 False 0 0 [] = Some (Inr [])"
    using fetchAllQuestions_total[of exampleHost questionsHttp 7 0 False 0 "[]"] by simp
  have f4: "fetchQuestions questionsHttp 7 False 1000 10001 = Inr []"
    by code_simp
  have w4: "questionsWalk questionsHttp 7 False 10000 10001 [feedbackItem 1 ''2024-01-01'']
     = Some (Inr [feedbackItem 1 ''2024-01-01''])"
    using fetchAllQuestions_total[of exampleHost questionsHttp 7 10000 False 10001
        "[feedbackItem 1 ''2024-01-01'']" "[]"] f4
    by simp
  show ?thesis by (simp add: fetchAllQuestions_def w1 w2 w3 w4 l)
qed

section \<open>Claims on the catalog\<close>

text \<open>
  C6.  \<open>normalizeProducts\<close> outputs one product for each identifier that some card
  resolves to (through \<open>nmID\<close>, or \<open>nmId\<close> when \<open>nmID\<close> is null or missing), and no
  other: the identifiers of the products are distinct, there are as many products as
  resolved identifiers, and each product is made from the first card in input order that
  resolves to its identifier.  A card whose identifier is not a finite number resolves
  to none, so it contributes no product.
\<close>

theorem normalizeProducts_dedup:
  assumes "normalizeProducts h cards = Inr ps"
  shows "distinct (map nm_id ps) \<and>
         set (map nm_id ps) = {n. \<exists>c \<in> set cards. resolvesTo h n c} \<and>
         length ps = card {n. \<exists>c \<in> set cards. resolvesTo h n c} \<and>
         (\<forall>p \<in> set ps. \<exists>c. find (resolvesTo h (nm_id p)) cards = Some c \<and>
                              makeProduct h c (nm_id p) = Inr p)"
  using assms by (rule normalizeProducts_firsts)

text \<open>
  Four cards: two of identifier 2, one without an identifier, one of identifier 1.  Two
  products come out, and the one of identifier 2 has the title of the first card.
\<close>

theorem normalizeProducts_dedup_witness:
  "normalizeProducts exampleHost
     [catalogCard 2 ''b'', catalogCard 2 ''z'', JObj [(js ''title'', JStr (js ''x''))], catalogCard 1 ''a'']
     = Inr [catalogProduct 1 ''a'', catalogProduct 2 ''b''] \<and>
   card {n. \<exists>c \<in> set [catalogCard 2 ''b'', catalogCard 2 ''z'', JObj [(js ''title'', JStr (js ''x''))],
                         catalogCard 1 ''a'']. resolvesTo exampleHost n c} = 2"
proof -
  have e: "normalizeProducts exampleHost
     [catalogCard 2 ''b'', catalogCard 2 ''z'', JObj [(js ''title'', JStr (js ''x''))], catalogCard 1 ''a'']
     = Inr [catalogProduct 1 ''a'', catalogProduct 2 ''b'']"
    by code_simp
  from normalizeProducts_dedup[OF e] e show ?thesis by simp
qed

text \<open>
  C2 (as the code has it).  \<open>fetchProductCards\<close> truncates the accumulated cards to
  \<open>maxItems\<close> first and normalizes what is left: its result is
  \<open>normalizeProducts (cards.slice(0, maxItems))\<close>.  So deduplication sees the first
  \<open>maxItems\<close> cards only, every product comes from one of them, and for a
  non-negative \<open>maxItems\<close> there are at most \<open>maxItems\<close> products.
\<close>

theorem fetchProductCards_truncates_first:
  assumes "fetchProductCards h http pageSize maxItems = Some (Inr ps)"
  shows "\<exists>cards. cardsLoop h http pageSize maxItems (None, None) [] = Some (Inr cards) \<and>
           normalizeProducts h (sliceTo maxItems cards) = Inr ps \<and>
           (0 \<le> maxItems \<longrightarrow> int (length ps) \<le> maxItems) \<and>
           (\<forall>p \<in> set ps. \<exists>c \<in> set (sliceTo maxItems cards). resolvesTo h (nm_id p) c)"
proof -
  from assms obtain cards where c: "cardsLoop h http pageSize maxItems (None, None) [] = Some (Inr cards)"
    and n: "normalizeProducts h (sliceTo maxItems cards) = Inr ps"
    unfolding fetchProductCards_Inr by blast
  have "int (length ps) \<le> maxItems" if "0 \<le> maxItems"
    using normalizeProducts_length[OF n] sliceTo_length[OF that, of cards] by linarith
  moreover have "\<forall>p \<in> set ps. \<exists>c \<in> set (sliceTo maxItems cards). resolvesTo h (nm_id p) c"
    using normalizeProducts_firsts[OF n] by (auto simp: find_Some_iff)
  ultimately show ?thesis using c n by blast
qed

text \<open>
  A first page of three cards, the first two of one identifier, and \<open>maxItems = 2\<close>: the
  two cards kept are duplicates, and one product is returned.
\<close>

theorem fetchProductCards_truncates_first_witness:
  "fetchProductCards exampleHost catalogHttp 100 2 = Some (Inr [catalogProduct 1 ''a'']) \<and>
   (\<exists>cards. cardsLoop exampleHost catalogHttp 100 2 (None, None) [] = Some (Inr cards) \<and>
      normalizeProducts exampleHost (sliceTo 2 cards) = Inr [catalogProduct 1 ''a''])"
proof -
  have c: "cardsLoop exampleHost catalogHttp 100 2 (None, None) []
     = Some (Inr [catalogCard 1 ''a'', catalogCard 1 ''a'', catalogCard 2 ''b''])"
    by (subst cardsLoop.simps) code_simp
  have n: "normalizeProducts exampleHost
       (sliceTo 2 [catalogCard 1 ''a'', catalogCard 1 ''a'', catalogCard 2 ''b''])
     = Inr [catalogProduct 1 ''a'']"
    by code_simp
  have e: "fetchProductCards exampleHost catalogHttp 100 2 = Some (Inr [catalogProduct 1 ''a''])"
    by (simp add: fetchProductCards_def c n)
  from fetchProductCards_truncates_first[OF e] e show ?thesis by blast
qed

text \<open>
  C2 as stated fails there: normalizing all three accumulated cards gives two products,
  and their first two are not the one product that \<open>fetchProductCards\<close> returns.
\<close>

theorem fetchProductCards_truncate_after_counterexample:
  "fetchProductCards exampleHost catalogHttp 100 2 = Some (Inr [catalogProduct 1 ''a'']) \<and>
   cardsLoop exampleHost catalogHttp 100 2 (None, None) []
     = Some (Inr [catalogCard 1 ''a'', catalogCard 1 ''a'', catalogCard 2 ''b'']) \<and>
   normalizeProducts exampleHost [catalogCard 1 ''a'', catalogCard 1 ''a'', catalogCard 2 ''b'']
     = Inr [catalogProduct 1 ''a'', catalogProduct 2 ''b''] \<and>
   take 2 [catalogProduct 1 ''a'', catalogProduct 2 ''b''] \<noteq> [catalogProduct 1 ''a'']"
proof -
  have c: "cardsLoop exampleHost catalogHttp 100 2 (None, None) []
     = Some (Inr [catalogCard 1 ''a'', catalogCard 1 ''a'', catalogCard 2 ''b''])"
    by (subst cardsLoop.simps) code_simp
  have n: "normalizeProducts exampleHost
       (sliceTo 2 [catalogCard 1 ''a'', catalogCard 1 ''a'', catalogCard 2 ''b''])
     = Inr [catalogProduct 1 ''a'']"
    by code_simp
  have a: "normalizeProducts exampleHost [catalogCard 1 ''a'', catalogCard 1 ''a'', catalogCard 2 ''b'']
     = Inr [catalogProduct 1 ''a'', catalogProduct 2 ''b'']"
    by code_simp
  have e: "fetchProductCards exampleHost catalogHttp 100 2 = Some (Inr [catalogProduct 1 ''a''])"
    by (simp add: fetchProductCards_def c n)
  from c a e show ?thesis by simp
qed

text \<open>
  C4.  When the \<open>photos\<close> collection of a card has an object entry with a URL under key
  \<open>tm\<close>, \<open>selectPhotoUrl\<close> chooses the URL of the best candidate of \<open>photos\<close> alone,
  whatever \<open>mediaFiles\<close> and \<open>images\<close> hold and whichever of their entries are marked
  main: the base score of the collection is compared first, and the main flag only
  between candidates of one collection.  When that entry is all there is in \<open>photos\<close>,
  the URL chosen is the one under \<open>tm\<close>.
\<close>

theorem selectPhotoUrl_photos_first:
  assumes "getProp rawCard (js ''photos'') = Inr (Some (JArr ps))"
    and "JObj ekvs \<in> set ps"
    and "map_of ekvs (js ''tm'') = Some (JStr u)"
    and "startsWithHttp u"
  shows "\<exists>best rest. sortBy compareCandidates (collect (Some (JArr ps)) 30) = best # rest \<and>
           fst best = 30 \<and>
           selectPhotoUrl h rawCard =
             bindE (appendPhotoVersion h (candidateUrl best) rawCard) (\<lambda>url. Inr (Some url)) \<and>
           compareCandidates (30, 0, score, index, url) (20, 1, score', index', url') < 0 \<and>
           (ps = [JObj [(js ''tm'', JStr u)]] \<longrightarrow> candidateUrl best = u)"
proof -
  define P where "P = collect (Some (JArr ps)) 30"
  have ne: "P \<noteq> []" unfolding P_def using assms(2-4) by (rule collect_tm)
  then have "sortBy compareCandidates P \<noteq> []" by (metis sortBy_length length_0_conv)
  then obtain best rest where br: "sortBy compareCandidates P = best # rest"
    by (cases "sortBy compareCandidates P") auto
  then have "best \<in> set P" by (metis list.set_intros(1) sortBy_set)
  then have b30: "fst best = 30" unfolding P_def by (rule collect_base)
  from assms(1) obtain kvs where card: "rawCard = JObj kvs" by (cases rawCard) auto
  define M where "M = collect (map_of kvs (js ''mediaFiles'')) 20 @ collect (map_of kvs (js ''images'')) 10"
  have dom: "\<forall>p \<in> set P. \<forall>q \<in> set M. compareCandidates p q \<le> 0"
  proof (intro ballI)
    fix p q assume "p \<in> set P" "q \<in> set M"
    then have "fst p = 30" "fst q = 20 \<or> fst q = 10"
      unfolding P_def M_def by (auto dest: collect_base)
    then show "compareCandidates p q \<le> 0" by (auto intro: compareCandidates_base)
  qed
  have "sortBy compareCandidates (P @ M) = (best # rest) @ sortBy compareCandidates M"
    using sortBy_append[OF dom] br by simp
  then have "selectPhotoUrl h rawCard =
      bindE (appendPhotoVersion h (candidateUrl best) rawCard) (\<lambda>url. Inr (Some url))"
    using assms(1) unfolding card by (simp add: selectPhotoUrl_def P_def M_def)
  moreover have "candidateUrl best = u" if "ps = [JObj [(js ''tm'', JStr u)]]"
    using br that assms(4) by (auto simp: P_def collect_single_tm candidateUrl_def)
  ultimately show ?thesis using br b30 unfolding P_def by simp
qed

text \<open>The card of the claim: the URL under \<open>tm\<close> of the \<open>photos\<close> entry is chosen.\<close>

theorem selectPhotoUrl_photos_first_witness:
  "selectPhotoUrl exampleHost photoCard = Inr (Some (js ''http://p/tm.jpg'')) \<and>
   (\<exists>best rest.
      sortBy compareCandidates
        (collect (Some (JArr [JObj [(js ''tm'', JStr (js ''http://p/tm.jpg''))]])) 30) = best # rest \<and>
      fst best = 30 \<and> candidateUrl best = js ''http://p/tm.jpg'' \<and>
      bindE (appendPhotoVersion exampleHost (candidateUrl best) photoCard) (\<lambda>url. Inr (Some url))
        = Inr (Some (js ''http://p/tm.jpg'')))"
proof -
  have e: "selectPhotoUrl exampleHost photoCard = Inr (Some (js ''http://p/tm.jpg''))"
    by code_simp
  have p: "getProp photoCard (js ''photos'')
     = Inr (Some (JArr [JObj [(js ''tm'', JStr (js ''http://p/tm.jpg''))]]))"
    by code_simp
  have t: "map_of [(js ''tm'', JStr (js ''http://p/tm.jpg''))] (js ''tm'') = Some (JStr (js ''http://p/tm.jpg''))"
    by simp
  have s: "startsWithHttp (js ''http://p/tm.jpg'')" by code_simp
  from selectPhotoUrl_photos_first[OF p _ t s, of exampleHost] e show ?thesis by auto
qed

section \<open>Claims on the credential store\<close>

text \<open>
  C7.  With the remote backend configured and its command failing, \<open>setValue\<close> writes
  the value to the in-process map and returns \<open>false\<close>.  With no remote backend
  configured it writes to the map and returns \<open>true\<close>, and a \<open>getValue\<close> of the key
  on the map it leaves returns the value.  \<open>setValue\<close> returns in every case: it never
  throws.
\<close>

theorem setValue_fallback:
  "(hasKV e \<and> kvCommand http (KvSet key v) = Inl err \<longrightarrow>
      setValue e http mem key v = (Inr False, mem(key \<mapsto> v))) \<and>
   (\<not> hasKV e \<longrightarrow>
      setValue e http mem key v = (Inr True, mem(key \<mapsto> v)) \<and>
      getValue e http' (snd (setValue e http mem key v)) key = Inr (orNull v)) \<and>
   (\<exists>b mem'. setValue e http mem key v = (Inr b, mem'))"
  by (cases "kvCommand http (KvSet key v)")
     (auto simp: setValue_def getValue_def memoryGet_def)

text \<open>
  \<open>setValue("k", "v")\<close> and \<open>getValue("k")\<close> without a remote backend, and
  \<open>setValue("k", "v")\<close> with a backend that answers with status 500.
\<close>

theorem setValue_fallback_witness:
  "setValue localEnv failingHttp Map.empty (js ''k'') (Some (JStr (js ''v'')))
     = (Inr True, [js ''k'' \<mapsto> Some (JStr (js ''v''))]) \<and>
   getValue localEnv failingHttp [js ''k'' \<mapsto> Some (JStr (js ''v''))] (js ''k'') = Inr (JStr (js ''v'')) \<and>
   kvCommand failingHttp (KvSet (js ''k'') (Some (JStr (js ''v'')))) = Inl (KVError (js ''KV error 500: down'')) \<and>
   setValue remoteEnv failingHttp Map.empty (js ''k'') (Some (JStr (js ''v'')))
     = (Inr False, [js ''k'' \<mapsto> Some (JStr (js ''v''))])"
proof -
  have l: "\<not> hasKV localEnv" by (simp add: hasKV_def localEnv_def)
  have r: "hasKV remoteEnv" by (simp add: hasKV_def remoteEnv_def js_def)
  have k: "kvCommand failingHttp (KvSet (js ''k'') (Some (JStr (js ''v'')))) = Inl (KVError (js ''KV error 500: down''))"
    by code_simp
  from setValue_fallback[of localEnv failingHttp "js ''k''" "Some (JStr (js ''v''))" _ Map.empty failingHttp] l
  have a: "setValue localEnv failingHttp Map.empty (js ''k'') (Some (JStr (js ''v'')))
     = (Inr True, [js ''k'' \<mapsto> Some (JStr (js ''v''))])"
    and b: "getValue localEnv failingHttp (snd (setValue localEnv failingHttp Map.empty (js ''k'') (Some (JStr (js ''v''))))) (js ''k'')
       = Inr (orNull (Some (JStr (js ''v''))))"
    by auto
  from setValue_fallback[of remoteEnv failingHttp "js ''k''" "Some (JStr (js ''v''))" _ Map.empty] r k
  have c: "setValue remoteEnv failingHttp Map.empty (js ''k'') (Some (JStr (js ''v'')))
     = (Inr False, [js ''k'' \<mapsto> Some (JStr (js ''v''))])"
    by auto
  from a b c k show ?thesis by (simp add: orNull_def)
qed

section \<open>Claims on the verification of initData\<close>

text \<open>
  C3 (as the code has it).  For every \<open>initData\<close> string and bot token, the verification
  computes the hex encoding of the HMAC-SHA256 of the check string, keyed by a secret
  that is the HMAC-SHA256 of the bot token keyed by the constant string \<open>WebAppData\<close>;
  the check string is the pairs of the parsed payload other than \<open>hash\<close>, sorted by key,
  as \<open>key=value\<close> joined by line feeds.  It accepts exactly when \<open>initData\<close> and the
  token are not empty, that hex encoding equals the supplied non-empty \<open>hash\<close>, the
  payload has not expired, and \<open>user\<close>, when present, parses as JSON.
\<close>

theorem verifyInitData_accepts_iff:
  "((\<exists>data user. verifyInitData p initData botToken maxAgeSeconds = Accepted data user) \<longleftrightarrow>
      initData \<noteq> [] \<and>
      (\<exists>token hash. botToken = Some token \<and> token \<noteq> [] \<and>
         map_of (parseInitData p initData) (js ''hash'') = Some hash \<and> hash \<noteq> [] \<and>
         hash = hex (hmacSha256 p (hmacSha256 p (utf8 p (js ''WebAppData'')) (utf8 p token))
                       (utf8 p (checkStringOfPairs (parseInitData p initData))))) \<and>
      \<not> expired p (parseInitData p initData) maxAgeSeconds \<and>
      (case map_of (parseInitData p initData) (js ''user'') of
         None \<Rightarrow> True
       | Some u \<Rightarrow> u = [] \<or> jsonParse p u \<noteq> None))"
proof -
  have c: "computedHash p (parseInitData p initData) token
      = hex (hmacSha256 p (hmacSha256 p (utf8 p (js ''WebAppData'')) (utf8 p token))
               (utf8 p (checkStringOfPairs (parseInitData p initData))))" for token
    by (simp add: computedHash_def Let_def buildDataCheckString_pairs[OF parseInitData_distinct])
  show ?thesis
    by (cases "map_of (parseInitData p initData) (js ''user'')")
       (auto simp: verifyInitData_Accepted c)
qed

text \<open>A payload signed for the token and fresh at the time of the check is accepted.\<close>

theorem verifyInitData_accepts_iff_witness:
  "verifyInitData examplePlatform (js ''auth_date=1699999000&user={\"id\":7}&hash=7d'')
     (Some (js ''123:tok'')) 86400
     = Accepted
         [(js ''auth_date'', js ''1699999000''), (js ''user'', js ''{\"id\":7}''), (js ''hash'', js ''7d'')]
         (JObj [(js ''id'', JNum 7)]) \<and>
   (\<exists>token hash. Some (js ''123:tok'') = Some token \<and> token \<noteq> [] \<and>
      map_of (parseInitData examplePlatform (js ''auth_date=1699999000&user={\"id\":7}&hash=7d''))
        (js ''hash'') = Some hash \<and> hash \<noteq> [] \<and>
      hash = hex (hmacSha256 examplePlatform
                   (hmacSha256 examplePlatform (utf8 examplePlatform (js ''WebAppData''))
                      (utf8 examplePlatform token))
                   (utf8 examplePlatform (checkStringOfPairs
                      (parseInitData examplePlatform (js ''auth_date=1699999000&user={\"id\":7}&hash=7d''))))))"
proof -
  have e: "verifyInitData examplePlatform (js ''auth_date=1699999000&user={\"id\":7}&hash=7d'')
     (Some (js ''123:tok'')) 86400
     = Accepted
         [(js ''auth_date'', js ''1699999000''), (js ''user'', js ''{\"id\":7}''), (js ''hash'', js ''7d'')]
         (JObj [(js ''id'', JNum 7)])"
    by code_simp
  from verifyInitData_accepts_iff[of examplePlatform "js ''auth_date=1699999000&user={\"id\":7}&hash=7d''"
      "Some (js ''123:tok'')" 86400] e
  show ?thesis by simp
qed

text \<open>
  C3 as stated fails: a payload whose hash is the one computed is rejected when its
  \<open>auth_date\<close> is older than the window, and when its \<open>user\<close> is not JSON; and a
  payload signed with the roles of key and message exchanged (the constant keyed by the
  token) is rejected for its signature.
\<close>

theorem verifyInitData_hash_not_sufficient_counterexample:
  "verifyInitData examplePlatform (js ''auth_date=1600000000&user={\"id\":7}&hash=26'')
     (Some (js ''123:tok'')) 86400 = Rejected ''initData expired.'' \<and>
   computedHash examplePlatform
     (parseInitData examplePlatform (js ''auth_date=1600000000&user={\"id\":7}&hash=26''))
     (js ''123:tok'') = js ''26'' \<and>
   verifyInitData examplePlatform (js ''auth_date=1699999000&user={&hash=7e'')
     (Some (js ''123:tok'')) 86400 = Rejected ''Invalid user JSON.'' \<and>
   computedHash examplePlatform
     (parseInitData examplePlatform (js ''auth_date=1699999000&user={&hash=7e''))
     (js ''123:tok'') = js ''7e'' \<and>
   hex (hmacSha256 examplePlatform
          (hmacSha256 examplePlatform (utf8 examplePlatform (js ''123:tok''))
             (utf8 examplePlatform (js ''WebAppData'')))
          (utf8 examplePlatform (js ''auth_date=1699999000'' @ [10] @ js ''user={\"id\":7}'')))
     = js ''8d'' \<and>
   verifyInitData examplePlatform (js ''auth_date=1699999000&user={\"id\":7}&hash=8d'')
     (Some (js ''123:tok'')) 86400 = Rejected ''Invalid initData signature.''"
  by code_simp

section \<open>Claims on the serializer\<close>

text \<open>
  The example of C8: \<open>toCsv([{a:1,b:{c:2}}, {a:3}])\<close> is the byte-order mark, the header
  \<open>a,b.c\<close> and the rows \<open>1,2\<close> and \<open>3,\<close>.
\<close>

lemma toCsv_example:
  "toCsv exampleHost
     [JObj [(js ''a'', JNum 1), (js ''b'', JObj [(js ''c'', JNum 2)])], JObj [(js ''a'', JNum 3)]]
     = Inr (0xFEFF # js ''a,b.c'' @ [10] @ js ''1,2'' @ [10] @ js ''3,'')"
  by code_simp

text \<open>
  The output is the byte-order mark, the header and one line for each row in input order
  (\<open>toCsv_shape\<close>); the header is the sorted union of the keys of the flattened rows
  (\<open>csvHeaders_sorted_union\<close>); a line has one cell for each header
  (\<open>csvLine_cells\<close>), empty for a path that the row lacks unless the path is the name of
  a property of \<open>Object.prototype\<close> (\<open>outputGet_missing\<close>).

  C8 does not hold of the code for every input.  A flattened row is a plain object, and
  \<open>row[key]\<close> for a path that the row lacks reads \<open>Object.prototype\<close>: under a header
  named like one of its properties the missing cell is not empty.  For
  \<open>toCsv([{constructor: 1}, {a: 2}])\<close> the second row is
  \<open>2,function Object() { [native code] }\<close>.
\<close>

theorem toCsv_inherited_cell:
  "toCsv exampleHost [JObj [(js ''constructor'', JNum 1)], JObj [(js ''a'', JNum 2)]]
     = Inr (0xFEFF # js ''a,constructor'' @ [10] @ js '',1'' @ [10] @
            js ''2,function Object() { [native code] }'')"
  by code_simp

text \<open>
  For the same reason a top-level path \<open>__proto__\<close> with a primitive value is in no
  header: the assignment goes to the setter of the prototype.
\<close>

lemma toCsv_proto_path_dropped:
  "toCsv exampleHost [JObj [(js ''__proto__'', JNum 1), (js ''a'', JNum 2)]]
     = Inr (0xFEFF # js ''a'' @ [10] @ js ''2'')"
  by code_simp


end
